theory Spec2Isabelle
  imports Complex_Main
begin

section \<open>GraphParser: the export's data model\<close>

text \<open>
  The parser (\<^verbatim>\<open>src/unnamed/part_005\<close>) reads values typed by \<^verbatim>\<open>@/types/chatgpt\<close>.
  Strings are character lists. A field the code reads through a guard, or whose
  absence makes a property read throw, is an \<open>option\<close>: \<open>None\<close> stands for
  \<^verbatim>\<open>null\<close> or \<^verbatim>\<open>undefined\<close>. Record fields carry a short prefix, since a field name is a
  constant of the theory (\<^verbatim>\<open>id\<close>, \<^verbatim>\<open>title\<close>, \<^verbatim>\<open>messages\<close> occur in several types).
\<close>

datatype role = User | Assistant | System | Tool

text \<open>
  Modelled from the spec: the element type of \<^verbatim>\<open>metadata.citations\<close> is declared in
  \<^verbatim>\<open>@/types/chatgpt\<close>, which is not among the sources; the parser only copies the
  value, so a citation is represented by its text.
\<close>

type_synonym citation = string

record author =
  au_role :: role

datatype part = PartString string | PartOther

record content_obj =
  c_content_type :: string
  c_parts :: "part list option"
  c_text :: "string option"
  c_result :: "string option"

datatype content = ContentObj content_obj | ContentString string

record message_metadata =
  md_model_slug :: "string option"
  md_citations :: "citation list option"

text \<open>
  Modelled from the spec: \<^verbatim>\<open>Message\<close> and \<^verbatim>\<open>MessageNode\<close> (\<^verbatim>\<open>@/types/chatgpt\<close>, not
  among the sources), with the fields \<^verbatim>\<open>processMessage\<close> and the traversals read.
  \<open>m_author\<close> and \<open>m_metadata\<close> are optional because a JSON document may omit them, and
  then \<^verbatim>\<open>author.role\<close> and \<^verbatim>\<open>message.metadata.model_slug\<close> throw a TypeError.
  \<open>m_create_time\<close> is in epoch seconds, taken as an integer.
\<close>

record message =
  m_id :: string
  m_author :: "author option"
  m_create_time :: "int option"
  m_content :: "content option"
  m_metadata :: "message_metadata option"

record message_node =
  n_id :: string
  n_message :: "message option"
  n_parent :: "string option"
  n_children :: "string list"

text \<open>
  \<^verbatim>\<open>Record<string, MessageNode>\<close>: the own properties of the object in the order of
  \<^verbatim>\<open>Object.values\<close>; \<^verbatim>\<open>mapping[k]\<close> is \<open>map_of mapping k\<close>. An object has each key once,
  so the keys of a mapping are distinct. Keys that name a property of
  \<^verbatim>\<open>Object.prototype\<close> (\<^verbatim>\<open>constructor\<close>, \<^verbatim>\<open>toString\<close>, ...), for which \<^verbatim>\<open>mapping[k]\<close> is that
  inherited property, are not modelled.
\<close>

type_synonym mapping = "(string \<times> message_node) list"

record conversation =
  cv_id :: string
  cv_title :: "string option"
  cv_create_time :: int
  cv_update_time :: int
  cv_mapping :: "mapping option"
  cv_current_node :: "string option"

text \<open>
  The \<^verbatim>\<open>conversations\<close> array as \<^verbatim>\<open>parseExport\<close> passes it on: the function checks only
  that it is an array, so an entry may be \<^verbatim>\<open>null\<close>, which is \<open>None\<close>. An entry that is
  another value without a mapping behaves as a conversation whose \<open>cv_mapping\<close> is
  \<open>None\<close>.
\<close>

record chatgpt_export =
  conversations :: "conversation option list"

subsection \<open>The processed (canonical) model\<close>

record code_block =
  cb_language :: string
  cb_code :: string

text \<open>\<^verbatim>\<open>new Date(ms)\<close> is \<open>DateMs ms\<close>; \<^verbatim>\<open>new Date()\<close>, the time of the call, is \<open>DateNow\<close>.\<close>

datatype js_date = DateMs int | DateNow


record processed_metadata =
  pm_model :: "string option"
  pm_citations :: "citation list option"
  pm_codeBlocks :: "code_block list option"

record processed_message =
  p_id :: string
  p_role :: role
  p_content :: string
  p_timestamp :: js_date
  p_contentType :: "string option"
  p_metadata :: processed_metadata

record processed_branch =
  b_id :: string
  b_parentMessageId :: string
  b_messages :: "processed_message list"

record conversation_metadata =
  totalMessages :: nat
  userMessages :: nat
  assistantMessages :: nat
  hasCode :: bool
  hasImages :: bool
  hasBranches :: bool
  models :: "string list"

record processed_conversation =
  pc_id :: string
  pc_title :: string
  pc_created :: js_date
  pc_updated :: js_date
  pc_messageCount :: nat
  pc_messages :: "processed_message list"
  pc_branches :: "processed_branch list option"
  pc_metadata :: conversation_metadata

text \<open>What a \<^verbatim>\<open>throw\<close> carries: an \<^verbatim>\<open>Error\<close> with its message, or the runtime's TypeError.\<close>

datatype js_error = Error string | TypeError string

section \<open>GraphParser: text and code extraction\<close>

definition newline :: char where
  "newline = CHR 0x0A"

fun join_lines :: "string list \<Rightarrow> string" where
  "join_lines [] = []"
| "join_lines [s] = s"
| "join_lines (s # t # ss) = s @ newline # join_lines (t # ss)"

fun part_strings :: "part list \<Rightarrow> string list" where
  "part_strings [] = []"
| "part_strings (PartString s # ps) = s # part_strings ps"
| "part_strings (PartOther # ps) = part_strings ps"

text \<open>
  \<^verbatim>\<open>extractTextContent\<close>: \<open>c_parts = Some ps\<close> is an array (an empty one is truthy too);
  \<open>c_text\<close> and \<open>c_result\<close> count when they are non-empty strings; a content that is
  itself a string has none of the three properties and is returned as it is.
\<close>

fun extractTextContent :: "content \<Rightarrow> string" where
  "extractTextContent (ContentString s) = s"
| "extractTextContent (ContentObj c) =
     (case c_parts c of
        Some ps \<Rightarrow> join_lines (part_strings ps)
      | None \<Rightarrow>
          (case c_text c of
             Some (x # xs) \<Rightarrow> x # xs
           | _ \<Rightarrow>
               (case c_result c of
                  Some (y # ys) \<Rightarrow> y # ys
                | _ \<Rightarrow> [])))"

text \<open>
  \<^verbatim>\<open>extractCodeBlocks\<close> scans with the regular expression
  \<^verbatim>\<open>```(\w+)?\n([\s\S]*?)```\<close> (flag g). A match at a position needs three backticks,
  the longest run of word characters, a newline, and then the first later run of
  three backticks; the search resumes behind the match.
\<close>

definition fence :: string where
  "fence = [CHR 0x60, CHR 0x60, CHR 0x60]"

definition isWordChar :: "char \<Rightarrow> bool" where
  "isWordChar c =
     (let n = (of_char c :: nat)
      in (48 \<le> n \<and> n \<le> 57) \<or> (65 \<le> n \<and> n \<le> 90) \<or> (97 \<le> n \<and> n \<le> 122) \<or> n = 95)"

definition isSpaceChar :: "char \<Rightarrow> bool" where
  "isSpaceChar c = ((of_char c :: nat) = 32 \<or> (9 \<le> (of_char c :: nat) \<and> (of_char c :: nat) \<le> 13))"

definition trim :: "string \<Rightarrow> string" where
  "trim s = rev (dropWhile isSpaceChar (rev (dropWhile isSpaceChar s)))"

fun findFence :: "string \<Rightarrow> (string \<times> string) option" where
  "findFence [] = None"
| "findFence (c # cs) =
     (if take 3 (c # cs) = fence then Some ([], drop 3 (c # cs))
      else (case findFence cs of None \<Rightarrow> None | Some (body, rest) \<Rightarrow> Some (c # body, rest)))"

definition matchAt :: "string \<Rightarrow> (string \<times> string \<times> string) option" where
  "matchAt s =
     (if take 3 s = fence then
        (case dropWhile isWordChar (drop 3 s) of
           [] \<Rightarrow> None
         | c # body \<Rightarrow>
             (if c = newline then
                (case findFence body of
                   None \<Rightarrow> None
                 | Some (code, rest) \<Rightarrow> Some (takeWhile isWordChar (drop 3 s), code, rest))
              else None))
      else None)"

lemma findFence_shorter: "findFence s = Some (body, rest) \<Longrightarrow> length rest < length s"
proof (induction s arbitrary: body rest)
  case Nil
  then show ?case by simp
next
  case (Cons c cs)
  show ?case
  proof (cases "take 3 (c # cs) = fence")
    case True
    with Cons.prems show ?thesis by auto
  next
    case False
    with Cons.prems obtain b where "findFence cs = Some (b, rest)"
      by (auto split: option.splits)
    from Cons.IH [OF this] show ?thesis by simp
  qed
qed

lemma matchAt_shorter:
  assumes "matchAt s = Some (lang, code, rest)"
  shows "length rest < length s"
proof -
  from assms obtain c body where d: "dropWhile isWordChar (drop 3 s) = c # body"
    and f: "findFence body = Some (code, rest)"
    by (auto simp: matchAt_def split: if_splits list.splits option.splits)
  have "length (c # body) \<le> length (drop 3 s)"
    unfolding d [symmetric] by (rule length_dropWhile_le)
  with findFence_shorter [OF f] show ?thesis by simp
qed

function extractCodeBlocks :: "string \<Rightarrow> code_block list" where
  "extractCodeBlocks [] = []"
| "extractCodeBlocks (c # cs) =
     (case matchAt (c # cs) of
        Some (lang, code, rest) \<Rightarrow>
          \<lparr>cb_language = (if lang = [] then ''plaintext'' else lang), cb_code = trim code\<rparr>
            # extractCodeBlocks rest
      | None \<Rightarrow> extractCodeBlocks cs)"
  by pat_completeness auto
termination
  by (relation "measure length") (auto dest: matchAt_shorter)

section \<open>GraphParser: messages and traversals\<close>

text \<open>
  \<^verbatim>\<open>processMessage\<close>: \<open>Inr None\<close> is the \<^verbatim>\<open>null\<close> it returns for a skipped message,
  \<open>Inl\<close> the TypeError of a property read on \<^verbatim>\<open>undefined\<close>. The reads happen in the
  order of the source: \<^verbatim>\<open>!content\<close> (an absent content or an empty string), then
  \<^verbatim>\<open>author.role\<close>, the text, the code blocks, and \<^verbatim>\<open>message.metadata\<close> last, while the
  result object is built.
\<close>

definition processMessage :: "message \<Rightarrow> js_error + processed_message option" where
  "processMessage message =
     (case m_content message of
        None \<Rightarrow> Inr None
      | Some content \<Rightarrow>
          if content = ContentString [] then Inr None
          else
            (case m_author message of
               None \<Rightarrow> Inl (TypeError ''Cannot read properties of undefined (reading role)'')
             | Some author \<Rightarrow>
                 if au_role author = System then Inr None
                 else
                   (let textContent = extractTextContent content in
                    if textContent = [] then Inr None
                    else
                      (let codeBlocks = extractCodeBlocks textContent in
                       case m_metadata message of
                         None \<Rightarrow>
                           Inl (TypeError ''Cannot read properties of undefined (reading model_slug)'')
                       | Some metadata \<Rightarrow>
                           Inr (Some
                             \<lparr>p_id = m_id message,
                              p_role = (if au_role author = Tool then Assistant else au_role author),
                              p_content = textContent,
                              p_timestamp =
                                (case m_create_time message of
                                   None \<Rightarrow> DateNow
                                 | Some t \<Rightarrow> if t = 0 then DateNow else DateMs (t * 1000)),
                              p_contentType =
                                (case content of
                                   ContentObj c \<Rightarrow> Some (c_content_type c)
                                 | ContentString s \<Rightarrow> None),
                              p_metadata =
                                \<lparr>pm_model = md_model_slug metadata,
                                 pm_citations = md_citations metadata,
                                 pm_codeBlocks =
                                   (if codeBlocks = [] then None else Some codeBlocks)\<rparr>\<rparr>)))))"

text \<open>
  The step both traversals share in the source text: push the node's processed
  message, if the node has a message and it is not skipped.
\<close>

definition recordMessage ::
  "message_node \<Rightarrow> processed_message list \<Rightarrow> js_error + processed_message list" where
  "recordMessage node messages =
     (case n_message node of
        None \<Rightarrow> Inr messages
      | Some msg \<Rightarrow>
          (case processMessage msg of
             Inl e \<Rightarrow> Inl e
           | Inr None \<Rightarrow> Inr messages
           | Inr (Some processedMessage) \<Rightarrow> Inr (messages @ [processedMessage])))"

text \<open>
  The number of node ids of the mapping (and of the current node) not yet visited:
  every round of a descent adds the current node's id to \<^verbatim>\<open>visited\<close>.
\<close>

definition unvisited :: "mapping \<Rightarrow> string set \<Rightarrow> message_node option \<Rightarrow> nat" where
  "unvisited mapping visited node =
     card ((n_id ` snd ` set mapping \<union> (case node of None \<Rightarrow> {} | Some n \<Rightarrow> {n_id n})) - visited)"

lemma unvisited_step:
  assumes "n_id node \<notin> visited"
  shows "unvisited mapping (insert (n_id node) visited) (map_of mapping k)
           < unvisited mapping visited (Some node)"
proof -
  let ?ids = "n_id ` snd ` set mapping"
  have sub: "(case map_of mapping k of None \<Rightarrow> {} | Some n \<Rightarrow> {n_id n}) \<subseteq> ?ids"
    by (auto split: option.splits dest!: map_of_SomeD intro!: image_eqI)
  have "(?ids \<union> (case map_of mapping k of None \<Rightarrow> {} | Some n \<Rightarrow> {n_id n}))
          - insert (n_id node) visited
        \<subset> (?ids \<union> {n_id node}) - visited"
    using assms sub by auto
  moreover have "finite ((?ids \<union> {n_id node}) - visited)"
    by simp
  ultimately show ?thesis
    unfolding unvisited_def by (simp add: psubset_card_mono)
qed

text \<open>
  The \<^verbatim>\<open>while (node)\<close> loop of \<^verbatim>\<open>extractMainThread\<close>: \<open>None\<close> is the \<^verbatim>\<open>undefined\<close> that
  \<^verbatim>\<open>mapping[nextNodeId]\<close> gives for a missing key.
\<close>

function mainThreadLoop ::
  "mapping \<Rightarrow> string set \<Rightarrow> message_node option \<Rightarrow> processed_message list
     \<Rightarrow> js_error + processed_message list" where
  "mainThreadLoop mapping visited None messages = Inr messages"
| "mainThreadLoop mapping visited (Some node) messages =
     (if n_id node \<in> visited then Inr messages
      else
        (case recordMessage node messages of
           Inl e \<Rightarrow> Inl e
         | Inr messages' \<Rightarrow>
             (case n_children node of
                [] \<Rightarrow> Inr messages'
              | nextNodeId # others \<Rightarrow>
                  mainThreadLoop mapping (insert (n_id node) visited)
                    (map_of mapping nextNodeId) messages')))"
  by pat_completeness auto
termination
  by (relation "measure (\<lambda>(mapping, visited, node, messages). unvisited mapping visited node)")
    (auto intro: unvisited_step)

text \<open>
  The walk back to the root, \<^verbatim>\<open>while (node.parent && mapping[node.parent])\<close>. The
  source keeps no visited set here, so the walk need not end: a run that never
  leaves the loop is the value \<open>None\<close>.
\<close>

partial_function (option) walkToRoot :: "mapping \<Rightarrow> message_node \<Rightarrow> message_node option" where
  "walkToRoot mapping node =
     (case n_parent node of
        None \<Rightarrow> Some node
      | Some p \<Rightarrow>
          if p = [] then Some node
          else
            (case map_of mapping p of
               None \<Rightarrow> Some node
             | Some parentNode \<Rightarrow> walkToRoot mapping parentNode))"

declare walkToRoot.simps [code]

text \<open>
  Root selection of \<^verbatim>\<open>extractMainThread\<close>: the first node whose parent is \<^verbatim>\<open>null\<close>;
  else the walk from \<^verbatim>\<open>current_node\<close> (a non-empty key of the mapping); else
  \<^verbatim>\<open>nodes[0]\<close>, which is \<^verbatim>\<open>undefined\<close> for an empty mapping.
\<close>

definition findRoot :: "mapping \<Rightarrow> string option \<Rightarrow> message_node option option" where
  "findRoot mapping currentNode =
     (case find (\<lambda>n. n_parent n = None) (map snd mapping) of
        Some node \<Rightarrow> Some (Some node)
      | None \<Rightarrow>
          (case (case currentNode of
                   None \<Rightarrow> None
                 | Some k \<Rightarrow> if k = [] then None else map_of mapping k) of
             Some node \<Rightarrow> map_option Some (walkToRoot mapping node)
           | None \<Rightarrow> Some (case map snd mapping of [] \<Rightarrow> None | n # ns \<Rightarrow> Some n)))"

definition extractMainThread ::
  "mapping \<Rightarrow> string option \<Rightarrow> (js_error + processed_message list) option" where
  "extractMainThread mapping currentNode =
     (case findRoot mapping currentNode of
        None \<Rightarrow> None
      | Some node \<Rightarrow> Some (mainThreadLoop mapping {} node []))"

text \<open>
  \<^verbatim>\<open>extractBranchThread\<close>: the loop also ends at a node whose id is among
  \<^verbatim>\<open>mainThreadIds\<close>, the ids of the main thread's messages.
\<close>

function branchThreadLoop ::
  "mapping \<Rightarrow> string set \<Rightarrow> string set \<Rightarrow> message_node option \<Rightarrow> processed_message list
     \<Rightarrow> js_error + processed_message list" where
  "branchThreadLoop mapping mainThreadIds visited None messages = Inr messages"
| "branchThreadLoop mapping mainThreadIds visited (Some node) messages =
     (if n_id node \<in> mainThreadIds then Inr messages
      else if n_id node \<in> visited then Inr messages
      else
        (case recordMessage node messages of
           Inl e \<Rightarrow> Inl e
         | Inr messages' \<Rightarrow>
             (case n_children node of
                [] \<Rightarrow> Inr messages'
              | nextNodeId # others \<Rightarrow>
                  branchThreadLoop mapping mainThreadIds (insert (n_id node) visited)
                    (map_of mapping nextNodeId) messages')))"
  by pat_completeness auto
termination
  by (relation
      "measure (\<lambda>(mapping, mainThreadIds, visited, node, messages). unvisited mapping visited node)")
    (auto intro: unvisited_step)

definition extractBranchThread ::
  "mapping \<Rightarrow> string \<Rightarrow> string set \<Rightarrow> js_error + processed_message list" where
  "extractBranchThread mapping startNodeId mainThreadIds =
     branchThreadLoop mapping mainThreadIds {} (map_of mapping startNodeId) []"

text \<open>
  \<^verbatim>\<open>extractBranches\<close>: the inner \<^verbatim>\<open>forEach\<close> over \<^verbatim>\<open>node.children.slice(1)\<close> and the outer
  one over \<^verbatim>\<open>Object.values(mapping)\<close>, with the list \<^verbatim>\<open>branches\<close> they push to. A
  throw of \<^verbatim>\<open>processMessage\<close> leaves both.
\<close>

fun branchesOfChildren ::
  "mapping \<Rightarrow> string set \<Rightarrow> message_node \<Rightarrow> string list \<Rightarrow> processed_branch list
     \<Rightarrow> js_error + processed_branch list" where
  "branchesOfChildren mapping mainThreadIds node [] branches = Inr branches"
| "branchesOfChildren mapping mainThreadIds node (childId # rest) branches =
     (case extractBranchThread mapping childId mainThreadIds of
        Inl e \<Rightarrow> Inl e
      | Inr branchMessages \<Rightarrow>
          branchesOfChildren mapping mainThreadIds node rest
            (if 0 < length branchMessages
             then branches @
               [\<lparr>b_id = childId, b_parentMessageId = n_id node, b_messages = branchMessages\<rparr>]
             else branches))"

fun branchesOfNodes ::
  "mapping \<Rightarrow> string set \<Rightarrow> message_node list \<Rightarrow> processed_branch list
     \<Rightarrow> js_error + processed_branch list" where
  "branchesOfNodes mapping mainThreadIds [] branches = Inr branches"
| "branchesOfNodes mapping mainThreadIds (node # nodes) branches =
     (if 1 < length (n_children node) then
        (case branchesOfChildren mapping mainThreadIds node (tl (n_children node)) branches of
           Inl e \<Rightarrow> Inl e
         | Inr branches' \<Rightarrow> branchesOfNodes mapping mainThreadIds nodes branches')
      else branchesOfNodes mapping mainThreadIds nodes branches)"

definition extractBranches ::
  "mapping \<Rightarrow> processed_message list \<Rightarrow> js_error + processed_branch list" where
  "extractBranches mapping mainThread =
     branchesOfNodes mapping (set (map p_id mainThread)) (map snd mapping) []"

subsection \<open>Conversations\<close>

text \<open>The \<^verbatim>\<open>Set\<close> of model names keeps each name at its first occurrence.\<close>

definition distinctModels :: "processed_message list \<Rightarrow> string list" where
  "distinctModels messages =
     rev (remdups (rev (concat (map (\<lambda>m. case pm_model (p_metadata m) of
        None \<Rightarrow> [] | Some s \<Rightarrow> if s = [] then [] else [s]) messages))))"

definition generateMetadata ::
  "processed_message list \<Rightarrow> processed_branch list \<Rightarrow> conversation_metadata" where
  "generateMetadata messages branches =
     \<lparr>totalMessages = length messages,
      userMessages = length (filter (\<lambda>m. p_role m = User) messages),
      assistantMessages = length (filter (\<lambda>m. p_role m = Assistant) messages),
      hasCode = list_ex (\<lambda>m. case pm_codeBlocks (p_metadata m) of
                               None \<Rightarrow> False | Some bs \<Rightarrow> 0 < length bs) messages,
      hasImages = list_ex (\<lambda>m. p_contentType m = Some ''multimodal_text'') messages,
      hasBranches = (0 < length branches),
      models = distinctModels messages\<rparr>"

text \<open>
  \<^verbatim>\<open>processConversation\<close>. \<^verbatim>\<open>Object.values(mapping)\<close>, the first statement of
  \<^verbatim>\<open>extractMainThread\<close>, throws a TypeError for a conversation without a mapping.
  The outer \<open>None\<close> is a call that does not return.
\<close>

definition processConversation ::
  "conversation \<Rightarrow> (js_error + processed_conversation) option" where
  "processConversation conversation =
     (case cv_mapping conversation of
        None \<Rightarrow> Some (Inl (TypeError ''Cannot convert undefined or null to object''))
      | Some mapping \<Rightarrow>
          (case extractMainThread mapping (cv_current_node conversation) of
             None \<Rightarrow> None
           | Some (Inl e) \<Rightarrow> Some (Inl e)
           | Some (Inr mainThread) \<Rightarrow>
               (case extractBranches mapping mainThread of
                  Inl e \<Rightarrow> Some (Inl e)
                | Inr branches \<Rightarrow>
                    Some (Inr
                      \<lparr>pc_id = cv_id conversation,
                       pc_title =
                         (case cv_title conversation of
                            None \<Rightarrow> ''Untitled Conversation''
                          | Some t \<Rightarrow> if t = [] then ''Untitled Conversation'' else t),
                       pc_created = DateMs (cv_create_time conversation * 1000),
                       pc_updated = DateMs (cv_update_time conversation * 1000),
                       pc_messageCount = length mainThread,
                       pc_messages = mainThread,
                       pc_branches = (if 0 < length branches then Some branches else None),
                       pc_metadata = generateMetadata mainThread branches\<rparr>))))"

text \<open>
  \<^verbatim>\<open>processConversations\<close>: the \<^verbatim>\<open>map\<close> whose callback catches every throw of
  \<^verbatim>\<open>processConversation\<close> and returns \<^verbatim>\<open>null\<close> for it, then the \<^verbatim>\<open>filter\<close> that drops the
  \<^verbatim>\<open>null\<close>s. The \<^verbatim>\<open>catch\<close> block builds its log line from \<^verbatim>\<open>conversation.id\<close>: for an
  entry that is \<^verbatim>\<open>null\<close> the destructuring in \<^verbatim>\<open>processConversation\<close> throws, and the
  read of \<^verbatim>\<open>conversation.id\<close> in the \<^verbatim>\<open>catch\<close> block throws again; that TypeError leaves
  the callback and \<^verbatim>\<open>map\<close>, and the entries behind it are not looked at. \<open>Inl\<close> is such a
  throw of \<^verbatim>\<open>processConversations\<close> itself, the outer \<open>None\<close> a call that does not
  return.
\<close>

fun tryEach ::
  "conversation option list \<Rightarrow> (js_error + processed_conversation option list) option" where
  "tryEach [] = Some (Inr [])"
| "tryEach (None # rest) = Some (Inl (TypeError ''Cannot read properties of null (reading id)''))"
| "tryEach (Some conversation # rest) =
     (case processConversation conversation of
        None \<Rightarrow> None
      | Some r \<Rightarrow>
          (case tryEach rest of
             None \<Rightarrow> None
           | Some (Inl e) \<Rightarrow> Some (Inl e)
           | Some (Inr rs) \<Rightarrow>
               Some (Inr ((case r of Inl e \<Rightarrow> None | Inr pc \<Rightarrow> Some pc) # rs))))"

definition processConversations ::
  "chatgpt_export \<Rightarrow> (js_error + processed_conversation list) option" where
  "processConversations chatGPTExport =
     (case tryEach (conversations chatGPTExport) of
        None \<Rightarrow> None
      | Some (Inl e) \<Rightarrow> Some (Inl e)
      | Some (Inr rs) \<Rightarrow>
          Some (Inr (concat (map (\<lambda>r. case r of None \<Rightarrow> [] | Some pc \<Rightarrow> [pc]) rs))))"

text \<open>
  \<^verbatim>\<open>parseExport\<close> on what \<^verbatim>\<open>JSON.parse\<close> makes of the text: a SyntaxError, a value that
  is falsy or no object, an array, or an object whose \<^verbatim>\<open>conversations\<close> property is an
  array (\<open>Some\<close>) or anything else (\<open>None\<close>).
\<close>

datatype json_data =
  JsonSyntaxError string
| JsonPrimitive
| JsonArray "conversation option list"
| JsonObject "conversation option list option"

fun parseExport :: "json_data \<Rightarrow> js_error + chatgpt_export" where
  "parseExport (JsonSyntaxError msg) = Inl (Error (''Invalid JSON file: '' @ msg))"
| "parseExport JsonPrimitive = Inl (Error ''Invalid JSON structure'')"
| "parseExport (JsonArray cs) = Inr \<lparr>conversations = cs\<rparr>"
| "parseExport (JsonObject (Some cs)) = Inr \<lparr>conversations = cs\<rparr>"
| "parseExport (JsonObject None) = Inl (Error ''No conversations array found in export'')"

section \<open>Scraper: configuration and progress\<close>

text \<open>
  \<^verbatim>\<open>src/lib/scraper/enhanced-scraper.ts\<close>, with \<^verbatim>\<open>ScrapedMessage\<close> and
  \<^verbatim>\<open>ScrapedConversation\<close> of \<^verbatim>\<open>@/types/scraper\<close>. Numbers that count are \<open>nat\<close> or \<open>int\<close>,
  durations in milliseconds are \<open>real\<close> (the rounding of floating-point numbers is
  left out). A scraped message has one of the roles user, assistant and system.
\<close>

record scraper_config =
  maxRetries :: int
  minDelay :: real
  maxDelay :: real
  backoffMultiplier :: real
  jitterRange :: real
  timeout :: real
  saveProgressInterval :: nat

definition DEFAULT_SCRAPER_CONFIG :: scraper_config where
  "DEFAULT_SCRAPER_CONFIG =
     \<lparr>maxRetries = 3, minDelay = 1500, maxDelay = 4000, backoffMultiplier = 3 / 2,
      jitterRange = 500, timeout = 30000, saveProgressInterval = 5\<rparr>"

text \<open>
  A field of type \<^verbatim>\<open>Date\<close> holds a \<^verbatim>\<open>Date\<close> object; after \<^verbatim>\<open>JSON.stringify\<close> and
  \<^verbatim>\<open>JSON.parse\<close> the same field holds the ISO string of that date, or \<^verbatim>\<open>null\<close> when
  the date is an Invalid Date.
\<close>

datatype date_field = DateObject js_date | IsoString js_date | JsonNull

record scraped_message =
  sm_role :: role
  sm_content :: string
  sm_timestamp :: "date_field option"
  sm_codeBlocks :: "code_block list option"

record scraped_conversation =
  sc_id :: string
  sc_title :: string
  sc_url :: string
  sc_messages :: "scraped_message list"
  sc_createdAt :: "date_field option"
  sc_updatedAt :: "date_field option"

record failed_conversation =
  fc_id :: string
  fc_title :: string
  fc_url :: string
  fc_error :: string
  fc_retryCount :: nat
  fc_lastAttempt :: int

record conversation_link =
  l_id :: string
  l_title :: string
  l_url :: string

record scrape_progress =
  sessionId :: string
  totalConversations :: nat
  scrapedConversations :: "scraped_conversation list"
  scrapedIds :: "string list"
  failedConversations :: "failed_conversation list"
  currentIndex :: nat
  timestamp :: int
  isComplete :: bool

section \<open>Scraper: the run-time state\<close>

text \<open>
  What a run leaves behind, in order: an invocation of the operation handed to
  \<^verbatim>\<open>retryOperation\<close> (under the operation's name), a \<^verbatim>\<open>sleep\<close> with its duration, and
  the start of the scraping of one link (the loop's \<^verbatim>\<open>[Scraping]\<close> log line).
\<close>

datatype event = Invoked string | Slept real | Scraping conversation_link

text \<open>
  The entry of \<^verbatim>\<open>localStorage\<close> under \<^verbatim>\<open>PROGRESS_STORAGE_KEY\<close>: the JSON text of a
  progress value, standing for the value \<^verbatim>\<open>JSON.parse\<close> makes of it, or a text for which
  \<^verbatim>\<open>JSON.parse\<close> or the log line of \<^verbatim>\<open>loadProgress\<close> throws.
\<close>

datatype stored = ProgressJson scrape_progress | Unreadable

text \<open>
  \<open>hasLocalStorage\<close>: \<^verbatim>\<open>typeof window !== 'undefined' && window.localStorage\<close>;
  \<open>setItemThrows\<close>: the write is refused (quota); \<open>item\<close>: the entry, if any.
\<close>

record browser_storage =
  hasLocalStorage :: bool
  setItemThrows :: bool
  item :: "stored option"

text \<open>
  The state a run threads through its calls: the page and everything behind it
  (\<open>world\<close>), the storage, the events so far and the number of \<^verbatim>\<open>Math.random()\<close> calls.
\<close>

record 'w runtime =
  world :: 'w
  storage :: browser_storage
  events :: "event list"
  randomCalls :: nat

text \<open>
  What the platform and the page do, as parameters: the value of the k-th call of
  \<^verbatim>\<open>Math.random()\<close>, \<^verbatim>\<open>Date.now()\<close>, the text \<^verbatim>\<open>generateSessionId\<close> renders from both, one run
  of each operation that the source hands to \<^verbatim>\<open>retryOperation\<close> (\<open>Inl\<close> is the message of
  what it throws), and the caller's \<^verbatim>\<open>onProgress\<close> callback.
\<close>

record 'w platform =
  mathRandom :: "nat \<Rightarrow> real"
  dateNow :: "'w \<Rightarrow> int"
  renderSessionId :: "int \<Rightarrow> real \<Rightarrow> string"
  scrollOnce :: "'w \<Rightarrow> (string + unit) \<times> 'w"
  findLinksOnce :: "'w \<Rightarrow> (string + conversation_link list) \<times> 'w"
  scrapeOnce :: "conversation_link \<Rightarrow> 'w \<Rightarrow> (string + scraped_conversation) \<times> 'w"
  onProgress :: "(scrape_progress \<Rightarrow> 'w \<Rightarrow> (string + unit) \<times> 'w) option"

definition sleep :: "real \<Rightarrow> 'w runtime \<Rightarrow> 'w runtime" where
  "sleep ms s = s\<lparr>events := events s @ [Slept ms]\<rparr>"

definition nextRandom :: "'w platform \<Rightarrow> 'w runtime \<Rightarrow> real \<times> 'w runtime" where
  "nextRandom pf s = (mathRandom pf (randomCalls s), s\<lparr>randomCalls := Suc (randomCalls s)\<rparr>)"

definition calculateDelay ::
  "'w platform \<Rightarrow> nat \<Rightarrow> scraper_config \<Rightarrow> 'w runtime \<Rightarrow> real \<times> 'w runtime" where
  "calculateDelay pf attempt config s =
     (let baseDelay = minDelay config * backoffMultiplier config ^ attempt;
          delay = min baseDelay (maxDelay config);
          (r, s') = nextRandom pf s;
          jitter = r * jitterRange config
      in (delay + jitter, s'))"

text \<open>Decimal digits, for the number in a template literal.\<close>

definition digitChar :: "nat \<Rightarrow> char" where
  "digitChar d = ''0123456789'' ! d"

fun showNat :: "nat \<Rightarrow> string" where
  "showNat n = (if n < 10 then [digitChar n] else showNat (n div 10) @ [digitChar (n mod 10)])"

declare showNat.simps [simp del]

definition showInt :: "int \<Rightarrow> string" where
  "showInt i = (if i < 0 then CHR ''-'' # showNat (nat (- i)) else showNat (nat i))"

section \<open>Scraper: retries\<close>

text \<open>
  \<^verbatim>\<open>retryOperation\<close>: the \<^verbatim>\<open>for\<close> loop over \<^verbatim>\<open>attempt\<close>, with \<^verbatim>\<open>lastError\<close>'s message. A
  success returns from inside the loop; after the loop the function throws.
\<close>

function retryLoop ::
  "'w platform \<Rightarrow> ('w \<Rightarrow> (string + 'a) \<times> 'w) \<Rightarrow> string \<Rightarrow> scraper_config \<Rightarrow> nat
     \<Rightarrow> string option \<Rightarrow> 'w runtime \<Rightarrow> (js_error + 'a) \<times> 'w runtime" where
  "retryLoop pf operation operationName config attempt lastError s =
     (if int attempt < maxRetries config then
        (case operation (world s) of
           (Inr v, w) \<Rightarrow>
             (Inr v, s\<lparr>world := w, events := events s @ [Invoked operationName]\<rparr>)
         | (Inl msg, w) \<Rightarrow>
             retryLoop pf operation operationName config (Suc attempt) (Some msg)
               (let s1 = s\<lparr>world := w, events := events s @ [Invoked operationName]\<rparr>
                in if int attempt < maxRetries config - 1
                   then (case calculateDelay pf attempt config s1 of (delay, s2) \<Rightarrow> sleep delay s2)
                   else s1))
      else
        (Inl (Error (operationName @ '' failed after '' @ showInt (maxRetries config)
                       @ '' attempts: ''
                       @ (case lastError of None \<Rightarrow> ''undefined'' | Some msg \<Rightarrow> msg))),
         s))"
  by pat_completeness auto
termination
  by (relation "measure (\<lambda>(pf, operation, operationName, config, attempt, lastError, s).
        nat (maxRetries config - int attempt))") auto

declare retryLoop.simps [simp del]

definition retryOperation ::
  "'w platform \<Rightarrow> ('w \<Rightarrow> (string + 'a) \<times> 'w) \<Rightarrow> string \<Rightarrow> scraper_config \<Rightarrow> 'w runtime
     \<Rightarrow> (js_error + 'a) \<times> 'w runtime" where
  "retryOperation pf operation operationName config s =
     retryLoop pf operation operationName config 0 None s"




section \<open>Scraper: rate limiting\<close>

definition smartDelay :: "'w platform \<Rightarrow> nat \<Rightarrow> scraper_config \<Rightarrow> 'w runtime \<Rightarrow> 'w runtime" where
  "smartDelay pf conversationIndex config s =
     (case nextRandom pf s of
        (r, s1) \<Rightarrow>
          (let baseDelay = minDelay config + r * jitterRange config;
               progressMultiplier = 1 + (real conversationIndex / 100) * (1 / 2);
               totalDelay = min (baseDelay * progressMultiplier) (maxDelay config)
           in sleep totalDelay s1))"

section \<open>Scraper: progress persistence\<close>







definition clearProgress :: "browser_storage \<Rightarrow> browser_storage" where
  "clearProgress st = (if hasLocalStorage st then st\<lparr>item := None\<rparr> else st)"

section \<open>Scraper: the session\<close>









section \<open>Inputs of the declared types, and example inputs\<close>

text \<open>
  A message of the declared \<^verbatim>\<open>Message\<close> type has an author and a metadata object; a
  mapping is well typed when the messages of its nodes are.
\<close>

definition wellTypedMessage :: "message \<Rightarrow> bool" where
  "wellTypedMessage msg = (m_author msg \<noteq> None \<and> m_metadata msg \<noteq> None)"

definition wellTypedMapping :: "mapping \<Rightarrow> bool" where
  "wellTypedMapping mapping =
     list_all (\<lambda>(k, node). case n_message node of
                              None \<Rightarrow> True
                            | Some msg \<Rightarrow> wellTypedMessage msg) mapping"

text \<open>
  What one branch root contributes to the result of \<^verbatim>\<open>extractBranches\<close>, and what one
  node of the mapping contributes.
\<close>

definition branchOf ::
  "mapping \<Rightarrow> string set \<Rightarrow> message_node \<Rightarrow> string \<Rightarrow> processed_branch list" where
  "branchOf mapping mainThreadIds node childId =
     (case extractBranchThread mapping childId mainThreadIds of
        Inl e \<Rightarrow> []
      | Inr branchMessages \<Rightarrow>
          if branchMessages = [] then []
          else [\<lparr>b_id = childId, b_parentMessageId = n_id node, b_messages = branchMessages\<rparr>])"

definition branchesAt :: "mapping \<Rightarrow> string set \<Rightarrow> message_node \<Rightarrow> processed_branch list" where
  "branchesAt mapping mainThreadIds node =
     (if 1 < length (n_children node)
      then concat (map (branchOf mapping mainThreadIds node) (tl (n_children node)))
      else [])"

text \<open>
  Two nodes that are each other's parent and only child, and no node without a
  parent: \<^verbatim>\<open>{a: {id: "a", message: null, parent: "b", children: ["b"]},
  b: {id: "b", message: null, parent: "a", children: ["a"]}}\<close>.
\<close>

definition cycleNodeA :: message_node where
  "cycleNodeA = \<lparr>n_id = ''a'', n_message = None, n_parent = Some ''b'', n_children = [''b'']\<rparr>"

definition cycleNodeB :: message_node where
  "cycleNodeB = \<lparr>n_id = ''b'', n_message = None, n_parent = Some ''a'', n_children = [''a'']\<rparr>"

definition cycleMapping :: mapping where
  "cycleMapping = [(''a'', cycleNodeA), (''b'', cycleNodeB)]"

text \<open>
  The spec's concrete scenario. Its message has no \<^verbatim>\<open>metadata\<close> property, which is
  \<open>scenarioInput None\<close>; \<open>scenarioInput (Some md)\<close> is the same document with a
  metadata object in the message.
\<close>

definition scenarioMessage :: "message_metadata option \<Rightarrow> message" where
  "scenarioMessage md =
     \<lparr>m_id = ''n1'', m_author = Some \<lparr>au_role = User\<rparr>, m_create_time = Some 0,
      m_content = Some (ContentObj
        \<lparr>c_content_type = ''text'', c_parts = Some [PartString ''Hello''],
         c_text = None, c_result = None\<rparr>),
      m_metadata = md\<rparr>"

definition scenarioMapping :: "message_metadata option \<Rightarrow> mapping" where
  "scenarioMapping md =
     [(''root'', \<lparr>n_id = ''root'', n_message = None, n_parent = None, n_children = [''n1'']\<rparr>),
      (''n1'', \<lparr>n_id = ''n1'', n_message = Some (scenarioMessage md), n_parent = Some ''root'',
               n_children = []\<rparr>)]"

definition scenarioConversation :: "message_metadata option \<Rightarrow> conversation" where
  "scenarioConversation md =
     \<lparr>cv_id = ''c1'', cv_title = Some ''Test'', cv_create_time = 0, cv_update_time = 0,
      cv_mapping = Some (scenarioMapping md), cv_current_node = Some ''n1''\<rparr>"

definition scenarioInput :: "message_metadata option \<Rightarrow> json_data" where
  "scenarioInput md = JsonObject (Some [Some (scenarioConversation md)])"

text \<open>
  The scenario's pipeline: \<^verbatim>\<open>parseExport\<close>, then \<^verbatim>\<open>processConversations\<close>. \<open>Inl\<close> is a
  throw of either, \<open>Inr None\<close> a run that does not return.
\<close>

definition parseAndProcess :: "json_data \<Rightarrow> js_error + processed_conversation list option" where
  "parseAndProcess data =
     (case parseExport data of
        Inl e \<Rightarrow> Inl e
      | Inr chatGPTExport \<Rightarrow>
          (case processConversations chatGPTExport of
             None \<Rightarrow> Inr None
           | Some (Inl e) \<Rightarrow> Inl e
           | Some (Inr processed) \<Rightarrow> Inr (Some processed)))"

text \<open>
  A question with three answers: node \<open>p\<close> has the children \<open>c0\<close>, \<open>c1\<close>, \<open>c2\<close>, and
  the message of \<open>c1\<close> has the system role.
\<close>

definition textMessage :: "string \<Rightarrow> role \<Rightarrow> string \<Rightarrow> message" where
  "textMessage i r t =
     \<lparr>m_id = i, m_author = Some \<lparr>au_role = r\<rparr>, m_create_time = Some 1,
      m_content = Some (ContentObj
        \<lparr>c_content_type = ''text'', c_parts = Some [PartString t],
         c_text = None, c_result = None\<rparr>),
      m_metadata = Some \<lparr>md_model_slug = None, md_citations = None\<rparr>\<rparr>"

definition textReply :: "string \<Rightarrow> role \<Rightarrow> string \<Rightarrow> processed_message" where
  "textReply i r t =
     \<lparr>p_id = i, p_role = r, p_content = t, p_timestamp = DateMs 1000,
      p_contentType = Some ''text'',
      p_metadata = \<lparr>pm_model = None, pm_citations = None, pm_codeBlocks = None\<rparr>\<rparr>"

definition questionNode :: message_node where
  "questionNode =
     \<lparr>n_id = ''p'', n_message = Some (textMessage ''p'' User ''q''), n_parent = None,
      n_children = [''c0'', ''c1'', ''c2'']\<rparr>"

definition threeChildren :: mapping where
  "threeChildren =
     [(''p'', questionNode),
      (''c0'', \<lparr>n_id = ''c0'', n_message = Some (textMessage ''c0'' Assistant ''x''),
               n_parent = Some ''p'', n_children = []\<rparr>),
      (''c1'', \<lparr>n_id = ''c1'', n_message = Some (textMessage ''c1'' System ''y''),
               n_parent = Some ''p'', n_children = []\<rparr>),
      (''c2'', \<lparr>n_id = ''c2'', n_message = Some (textMessage ''c2'' Assistant ''z''),
               n_parent = Some ''p'', n_children = []\<rparr>)]"

definition threeChildrenThread :: "processed_message list" where
  "threeChildrenThread = [textReply ''p'' User ''q'', textReply ''c0'' Assistant ''x'']"

text \<open>
  A mapping that is a tree, after the claim's words: the keys are distinct and each
  node's id is its key; exactly one node has no parent; every child id of a node is the
  key of a node whose parent is that node, and every node with a parent is among that
  parent's children; and there is no cycle: from every node, at most as many parent
  links as the mapping has nodes lead to the node without a parent. \<open>climb\<close> counts
  those links.
\<close>

fun climb :: "mapping \<Rightarrow> nat \<Rightarrow> string \<Rightarrow> nat option" where
  "climb mapping 0 k = None"
| "climb mapping (Suc fuel) k =
     (case map_of mapping k of
        None \<Rightarrow> None
      | Some node \<Rightarrow>
          (case n_parent node of
             None \<Rightarrow> Some 0
           | Some p \<Rightarrow> map_option Suc (climb mapping fuel p)))"

definition isTree :: "mapping \<Rightarrow> bool" where
  "isTree mapping =
     (distinct (map fst mapping)
      \<and> list_all (\<lambda>(k, node). n_id node = k) mapping
      \<and> length (filter (\<lambda>(k, node). n_parent node = None) mapping) = 1
      \<and> list_all (\<lambda>(k, node).
            list_all (\<lambda>c. case map_of mapping c of
                             None \<Rightarrow> False
                           | Some child \<Rightarrow> n_parent child = Some k) (n_children node)) mapping
      \<and> list_all (\<lambda>(k, node).
            case n_parent node of
              None \<Rightarrow> True
            | Some p \<Rightarrow>
                (case map_of mapping p of
                   None \<Rightarrow> False
                 | Some parentNode \<Rightarrow> k \<in> set (n_children parentNode))) mapping
      \<and> list_all (\<lambda>(k, node). climb mapping (length mapping) k \<noteq> None) mapping)"

text \<open>
  The path of the claim: start at a key and take the first child id again and again,
  until a node has no children.
\<close>

inductive firstChildPath :: "mapping \<Rightarrow> string \<Rightarrow> message_node list \<Rightarrow> bool" where
  leaf: "map_of mapping k = Some node \<Longrightarrow> n_children node = []
          \<Longrightarrow> firstChildPath mapping k [node]"
| step: "map_of mapping k = Some node \<Longrightarrow> n_children node = c # cs
          \<Longrightarrow> firstChildPath mapping c path
          \<Longrightarrow> firstChildPath mapping k (node # path)"

code_pred firstChildPath .

text \<open>
  The messages along a path, in path order; and the messages the claim excludes: those
  with the system role and those whose resolved text is empty (a message without a
  content has no text to resolve).
\<close>

definition pathMessages :: "message_node list \<Rightarrow> message list" where
  "pathMessages path = concat (map (\<lambda>node. case n_message node of None \<Rightarrow> [] | Some msg \<Rightarrow> [msg]) path)"

definition resolvedText :: "message \<Rightarrow> string" where
  "resolvedText msg = (case m_content msg of None \<Rightarrow> [] | Some content \<Rightarrow> extractTextContent content)"

definition excluded :: "message \<Rightarrow> bool" where
  "excluded msg = (map_option au_role (m_author msg) = Some System \<or> resolvedText msg = [])"

text \<open>The processed message a node adds to a thread, if any.\<close>

definition processedOf :: "message_node \<Rightarrow> processed_message list" where
  "processedOf node =
     (case n_message node of
        None \<Rightarrow> []
      | Some msg \<Rightarrow> (case processMessage msg of Inr (Some pm) \<Rightarrow> [pm] | _ \<Rightarrow> []))"

text \<open>
  A conversation without a mapping, for which \<^verbatim>\<open>Object.values(mapping)\<close> throws; a
  conversation whose mapping is the two-node cycle; the scenario's conversation with an
  empty metadata object, which is processed without a throw; and the results of the
  entries of a batch that are processed without a throw, in input order.
\<close>

definition noMappingConversation :: conversation where
  "noMappingConversation =
     \<lparr>cv_id = ''bad'', cv_title = None, cv_create_time = 0, cv_update_time = 0,
      cv_mapping = None, cv_current_node = None\<rparr>"

definition cycleConversation :: conversation where
  "cycleConversation =
     \<lparr>cv_id = ''loop'', cv_title = None, cv_create_time = 0, cv_update_time = 0,
      cv_mapping = Some cycleMapping, cv_current_node = Some ''a''\<rparr>"

definition validConversation :: conversation where
  "validConversation =
     scenarioConversation (Some \<lparr>md_model_slug = None, md_citations = None\<rparr>)"

definition successes :: "conversation option list \<Rightarrow> processed_conversation list" where
  "successes entries =
     concat (map (\<lambda>entry. case entry of
                             None \<Rightarrow> []
                           | Some c \<Rightarrow>
                               (case processConversation c of
                                  Some (Inr pc) \<Rightarrow> [pc]
                                | _ \<Rightarrow> [])) entries)"

section \<open>Scraper: the spec's formulas, and example runs\<close>

text \<open>
  The RetryExecutor's delay after the failed attempt \<open>k\<close> (counted from 0), after the
  spec's words: \<open>min(baseDelay * multiplier^k, maxDelay) + random(0, jitterRange)\<close>,
  where \<open>r\<close> is the value of \<^verbatim>\<open>Math.random()\<close>.
\<close>

definition backoffDelay :: "scraper_config \<Rightarrow> nat \<Rightarrow> real \<Rightarrow> real" where
  "backoffDelay config k r =
     min (minDelay config * backoffMultiplier config ^ k) (maxDelay config) + r * jitterRange config"


text \<open>
  The RateLimiter's delay, after the spec's words:
  \<open>min(baseDelay * (1 + 0.5 * index / 100) + random(0, jitterRange), maxDelay)\<close>.
\<close>

definition specRateLimiterDelay :: "nat \<Rightarrow> real \<Rightarrow> real \<Rightarrow> real \<Rightarrow> real \<Rightarrow> real" where
  "specRateLimiterDelay index baseDelay jitter cap r =
     min (baseDelay * (1 + (1 / 2) * real index / 100) + r * jitter) cap"







text \<open>
  An example platform: three links \<open>A\<close>, \<open>B\<close>, \<open>C\<close> are enumerated, every scrape
  succeeds at once, \<^verbatim>\<open>Math.random()\<close> is always one half. The world counts the
  invocations of the operation under test.
\<close>

definition linkA :: conversation_link where
  "linkA = \<lparr>l_id = ''A'', l_title = ''first'', l_url = ''https://chat.openai.com/c/A''\<rparr>"

definition linkB :: conversation_link where
  "linkB = \<lparr>l_id = ''B'', l_title = ''second'', l_url = ''https://chat.openai.com/c/B''\<rparr>"

definition linkC :: conversation_link where
  "linkC = \<lparr>l_id = ''C'', l_title = ''third'', l_url = ''https://chat.openai.com/c/C''\<rparr>"

definition scrapedFrom :: "conversation_link \<Rightarrow> scraped_conversation" where
  "scrapedFrom link =
     \<lparr>sc_id = l_id link, sc_title = l_title link, sc_url = l_url link,
      sc_messages = [\<lparr>sm_role = User, sm_content = ''hi'',
                      sm_timestamp = Some (DateObject DateNow), sm_codeBlocks = None\<rparr>],
      sc_createdAt = None, sc_updatedAt = Some (DateObject DateNow)\<rparr>"

definition quietPlatform :: "nat platform" where
  "quietPlatform =
     \<lparr>mathRandom = (\<lambda>k. 1 / 2), dateNow = (\<lambda>w. 0), renderSessionId = (\<lambda>t r. ''scrape-0-x''),
      scrollOnce = (\<lambda>w. (Inr (), w)),
      findLinksOnce = (\<lambda>w. (Inr [linkA, linkB, linkC], w)),
      scrapeOnce = (\<lambda>link w. (Inr (scrapedFrom link), Suc w)),
      onProgress = None\<rparr>"


text \<open>An operation that fails twice and then succeeds, and one that always fails.\<close>

definition flakyOperation :: "nat \<Rightarrow> (string + nat) \<times> nat" where
  "flakyOperation w = (if w < 2 then (Inl ''timeout'', Suc w) else (Inr w, Suc w))"

definition failingOperation :: "nat \<Rightarrow> (string + nat) \<times> nat" where
  "failingOperation w = (Inl ''timeout'', Suc w)"




definition emptyStorage :: browser_storage where
  "emptyStorage = \<lparr>hasLocalStorage = True, setItemThrows = False, item = None\<rparr>"


definition startWith :: "browser_storage \<Rightarrow> nat runtime" where
  "startWith st = \<lparr>world = 0, storage = st, events = [], randomCalls = 0\<rparr>"


section \<open>Properties of the GraphParser\<close>

subsection \<open>The walk to the root\<close>

lemma walkToRoot_cycle_aux:
  assumes "walkToRoot m node = Some r"
  shows "m = cycleMapping \<longrightarrow> node \<noteq> cycleNodeA \<and> node \<noteq> cycleNodeB"
proof (rule walkToRoot.raw_induct
    [where P = "\<lambda>m node r. m = cycleMapping \<longrightarrow> node \<noteq> cycleNodeA \<and> node \<noteq> cycleNodeB",
      OF _ assms], goal_cases)
  case (1 walk m node r)
  show ?case
  proof (intro impI conjI notI)
    assume m: "m = cycleMapping" and n: "node = cycleNodeA"
    with 1(2) have "walk m cycleNodeB = Some r"
      by (simp add: cycleMapping_def cycleNodeA_def)
    from 1(1) [OF this] m show False by simp
  next
    assume m: "m = cycleMapping" and n: "node = cycleNodeB"
    with 1(2) have "walk m cycleNodeA = Some r"
      by (simp add: cycleMapping_def cycleNodeB_def)
    from 1(1) [OF this] m show False by simp
  qed
qed

lemma walkToRoot_cycle: "walkToRoot cycleMapping cycleNodeA = None"
  using walkToRoot_cycle_aux [of cycleMapping cycleNodeA]
  by (cases "walkToRoot cycleMapping cycleNodeA") auto

lemma extractMainThread_cycle_hangs: "extractMainThread cycleMapping (Some ''a'') = None"
  using walkToRoot_cycle
  by (simp add: extractMainThread_def findRoot_def cycleMapping_def cycleNodeA_def
      cycleNodeB_def)

text \<open>
  C1 (the code departs from it). The claim: on every mapping, cyclic ones included,
  \<^verbatim>\<open>extractMainThread\<close> returns, its walk from \<^verbatim>\<open>current_node\<close> to a root being bounded by
  a visited set. The walk of the source has no such set: on the two-node cycle, started
  at node \<open>a\<close>, it alternates between the two nodes for ever, and
  \<^verbatim>\<open>extractMainThread\<close> never returns.
\<close>

theorem extractMainThread_cycle_diverges:
  "extractMainThread cycleMapping (Some ''a'') = None"
  using walkToRoot_cycle
  by (simp add: extractMainThread_def findRoot_def cycleMapping_def cycleNodeA_def
      cycleNodeB_def)

subsection \<open>The concrete scenario\<close>

lemma extractCodeBlocks_Hello: "extractCodeBlocks ''Hello'' = []"
  by (simp add: matchAt_def fence_def)

lemma processMessage_scenario_None:
  "processMessage (scenarioMessage None) =
     Inl (TypeError ''Cannot read properties of undefined (reading model_slug)'')"
  by (simp add: processMessage_def scenarioMessage_def extractCodeBlocks_Hello Let_def
      del: extractCodeBlocks.simps)

lemma processMessage_scenario_Some:
  "processMessage (scenarioMessage (Some md)) =
     Inr (Some
       \<lparr>p_id = ''n1'', p_role = User, p_content = ''Hello'', p_timestamp = DateNow,
        p_contentType = Some ''text'',
        p_metadata = \<lparr>pm_model = md_model_slug md, pm_citations = md_citations md,
                      pm_codeBlocks = None\<rparr>\<rparr>)"
  by (simp add: processMessage_def scenarioMessage_def extractCodeBlocks_Hello Let_def
      del: extractCodeBlocks.simps)

text \<open>
  C4, as stated, fails: the scenario's message has no \<^verbatim>\<open>metadata\<close>, so
  \<^verbatim>\<open>processMessage\<close> throws at \<^verbatim>\<open>message.metadata.model_slug\<close>, \<^verbatim>\<open>processConversations\<close>
  catches the throw and drops the conversation: the result is the empty list, not
  one conversation.
\<close>

theorem scenario_without_metadata:
  "parseAndProcess (scenarioInput None) = Inr (Some [])"
  by (simp add: parseAndProcess_def scenarioInput_def scenarioConversation_def
      processConversations_def processConversation_def extractMainThread_def findRoot_def
      scenarioMapping_def recordMessage_def processMessage_scenario_None)

text \<open>
  C4, amended: when the scenario's message also carries a metadata object (any one,
  \<^verbatim>\<open>metadata: {}\<close> included), parsing and processing yield exactly one conversation,
  whose main thread is one message with role user and text Hello; no branch was found,
  and the \<^verbatim>\<open>branches\<close> field is left undefined.
\<close>

theorem scenario_with_metadata:
  "\<exists>pc. parseAndProcess (scenarioInput (Some md)) = Inr (Some [pc])
     \<and> length (pc_messages pc) = 1
     \<and> p_role (pc_messages pc ! 0) = User
     \<and> p_content (pc_messages pc ! 0) = ''Hello''
     \<and> pc_branches pc = None
     \<and> hasBranches (pc_metadata pc) = False"
  by (simp add: parseAndProcess_def scenarioInput_def scenarioConversation_def
      processConversations_def processConversation_def extractMainThread_def findRoot_def
      scenarioMapping_def recordMessage_def processMessage_scenario_Some extractBranches_def
      generateMetadata_def)

subsection \<open>Branches\<close>

lemma branchesOfChildren_Inr:
  "branchesOfChildren m ids node cs bs = Inr bs'
     \<Longrightarrow> bs' = bs @ concat (map (branchOf m ids node) cs)"
proof (induction cs arbitrary: bs)
  case Nil
  then show ?case by simp
next
  case (Cons c cs)
  from Cons.prems obtain msgs where t: "extractBranchThread m c ids = Inr msgs"
    by (auto split: sum.splits)
  with Cons.prems have
    "branchesOfChildren m ids node cs
       (if 0 < length msgs
        then bs @ [\<lparr>b_id = c, b_parentMessageId = n_id node, b_messages = msgs\<rparr>] else bs) = Inr bs'"
    by simp
  from Cons.IH [OF this] t show ?case
    by (simp add: branchOf_def)
qed

lemma branchesOfNodes_Inr:
  "branchesOfNodes m ids nodes bs = Inr bs'
     \<Longrightarrow> bs' = bs @ concat (map (branchesAt m ids) nodes)"
proof (induction nodes arbitrary: bs)
  case Nil
  then show ?case by simp
next
  case (Cons node nodes)
  show ?case
  proof (cases "1 < length (n_children node)")
    case True
    with Cons.prems obtain mid where
      c: "branchesOfChildren m ids node (tl (n_children node)) bs = Inr mid"
      and r: "branchesOfNodes m ids nodes mid = Inr bs'"
      by (auto split: sum.splits)
    from branchesOfChildren_Inr [OF c] Cons.IH [OF r] True show ?thesis
      by (simp add: branchesAt_def)
  next
    case False
    with Cons.prems have "branchesOfNodes m ids nodes bs = Inr bs'" by simp
    from Cons.IH [OF this] False show ?thesis
      by (simp add: branchesAt_def)
  qed
qed

lemma extractBranches_Inr:
  "extractBranches m mt = Inr bs
     \<Longrightarrow> bs = concat (map (branchesAt m (set (map p_id mt))) (map snd m))"
  unfolding extractBranches_def by (drule branchesOfNodes_Inr) simp

lemma branchOf_nonempty: "b \<in> set (branchOf m ids node c) \<Longrightarrow>
   b_messages b \<noteq> [] \<and> b_id b = c \<and> b_parentMessageId b = n_id node \<and> extractBranchThread m c ids = Inr (b_messages b)"
  by (auto simp: branchOf_def split: sum.splits if_splits)

text \<open>
  C10: every branch that \<^verbatim>\<open>extractBranches\<close> returns has at least one message, and a
  branch root whose descent collects no message (every node on it lacks a message, has
  the system role or has an empty text) is the id of no returned branch.
\<close>

theorem branches_nonempty:
  assumes "extractBranches m mt = Inr bs"
  shows "(\<forall>b \<in> set bs. b_messages b \<noteq> [])
       \<and> (\<forall>c. extractBranchThread m c (set (map p_id mt)) = Inr [] \<longrightarrow> c \<notin> b_id ` set bs)"
proof -
  have *: "b_messages b \<noteq> [] \<and> extractBranchThread m (b_id b) (set (map p_id mt)) = Inr (b_messages b)"
    if "b \<in> set bs" for b
  proof -
    from that extractBranches_Inr [OF assms] obtain node c
      where "b \<in> set (branchOf m (set (map p_id mt)) node c)"
      by (auto simp: branchesAt_def split: if_splits)
    from branchOf_nonempty [OF this] show ?thesis by simp
  qed
  then show ?thesis by force
qed

lemma extractCodeBlocks_single: "extractCodeBlocks [c] = []"
  by (simp add: matchAt_def fence_def)

lemma processMessage_textMessage:
  "processMessage (textMessage i r [c]) =
     (if r = System then Inr None else Inr (Some (textReply i (if r = Tool then Assistant else r) [c])))"
  by (simp add: processMessage_def textMessage_def textReply_def extractCodeBlocks_single Let_def
      del: extractCodeBlocks.simps)

lemma threeChildren_mainThread:
  "extractMainThread threeChildren None = Some (Inr threeChildrenThread)"
  by (simp add: extractMainThread_def findRoot_def threeChildren_def questionNode_def recordMessage_def
      processMessage_textMessage threeChildrenThread_def)

lemma threeChildren_branches:
  "extractBranches threeChildren threeChildrenThread =
     Inr [\<lparr>b_id = ''c2'', b_parentMessageId = ''p'',
           b_messages = [textReply ''c2'' Assistant ''z'']\<rparr>]"
  by (simp add: extractBranches_def extractBranchThread_def threeChildren_def questionNode_def recordMessage_def
      processMessage_textMessage textReply_def threeChildrenThread_def)

lemma threeChildren_c1: "extractBranchThread threeChildren ''c1'' (set (map p_id threeChildrenThread)) = Inr []"
  by (simp add: extractBranchThread_def threeChildren_def questionNode_def recordMessage_def
      processMessage_textMessage textReply_def threeChildrenThread_def)

lemma threeChildren_c2: "extractBranchThread threeChildren ''c2'' (set (map p_id threeChildrenThread)) = Inr [textReply ''c2'' Assistant ''z'']"
  by (simp add: extractBranchThread_def threeChildren_def questionNode_def recordMessage_def
      processMessage_textMessage textReply_def threeChildrenThread_def)

lemma wellTyped_threeChildren: "wellTypedMapping threeChildren"
  by (simp add: wellTypedMapping_def threeChildren_def questionNode_def wellTypedMessage_def textMessage_def)

text \<open>
  Witness for C10, on the question with three answers: one branch is returned, it has a
  message, and the branch root \<open>c1\<close>, whose only message is a system message, has none.
\<close>

theorem branches_nonempty_witness:
  "extractBranches threeChildren threeChildrenThread =
     Inr [\<lparr>b_id = ''c2'', b_parentMessageId = ''p'',
           b_messages = [textReply ''c2'' Assistant ''z'']\<rparr>]
   \<and> b_messages \<lparr>b_id = ''c2'', b_parentMessageId = ''p'',
           b_messages = [textReply ''c2'' Assistant ''z'']\<rparr> \<noteq> []
   \<and> extractBranchThread threeChildren ''c1'' (set (map p_id threeChildrenThread)) = Inr []
   \<and> ''c1'' \<notin> b_id ` set [\<lparr>b_id = ''c2'', b_parentMessageId = ''p'',
           b_messages = [textReply ''c2'' Assistant ''z'']\<rparr>]"
  using branches_nonempty [OF threeChildren_branches] threeChildren_branches threeChildren_c1
  by simp

lemma processMessage_wellTyped:
  "wellTypedMessage msg \<Longrightarrow> \<exists>r. processMessage msg = Inr r"
  by (auto simp: wellTypedMessage_def processMessage_def Let_def split: option.splits)

lemma recordMessage_wellTyped:
  assumes "wellTypedMapping m" "node \<in> snd ` set m"
  shows "\<exists>ms. recordMessage node msgs = Inr ms"
proof (cases "n_message node")
  case None
  then show ?thesis by (simp add: recordMessage_def)
next
  case (Some msg)
  with assms have "wellTypedMessage msg"
    by (auto simp: wellTypedMapping_def list_all_iff)
  from processMessage_wellTyped [OF this] Some show ?thesis
    by (auto simp: recordMessage_def split: option.splits)
qed

lemma branchThreadLoop_wellTyped:
  "wellTypedMapping m \<Longrightarrow> (\<forall>n. nodeOpt = Some n \<longrightarrow> n \<in> snd ` set m)
     \<Longrightarrow> \<exists>r. branchThreadLoop m ids visited nodeOpt msgs = Inr r"
proof (induction m ids visited nodeOpt msgs rule: branchThreadLoop.induct)
  case (1 m ids visited msgs)
  then show ?case by simp
next
  case (2 m ids visited node msgs)
  from "2.prems" have inm: "node \<in> snd ` set m" by simp
  from recordMessage_wellTyped [OF "2.prems"(1) inm] obtain ms
    where rm: "recordMessage node msgs = Inr ms" by blast
  show ?case
  proof (cases "n_id node \<in> ids \<or> n_id node \<in> visited")
    case True
    then show ?thesis by auto
  next
    case False
    show ?thesis
    proof (cases "n_children node")
      case Nil
      with False rm show ?thesis by simp
    next
      case (Cons c cs)
      have "\<forall>n. map_of m c = Some n \<longrightarrow> n \<in> snd ` set m"
        by (auto dest!: map_of_SomeD intro!: image_eqI)
      with "2.IH" [of ms c cs] False rm Cons "2.prems"(1)
      show ?thesis by simp
    qed
  qed
qed

lemma extractBranchThread_wellTyped:
  "wellTypedMapping m \<Longrightarrow> \<exists>r. extractBranchThread m c ids = Inr r"
  unfolding extractBranchThread_def
  by (rule branchThreadLoop_wellTyped) (auto dest!: map_of_SomeD intro!: image_eqI)

lemma branchesOfChildren_wellTyped:
  "wellTypedMapping m \<Longrightarrow> \<exists>r. branchesOfChildren m ids node cs bs = Inr r"
proof (induction cs arbitrary: bs)
  case Nil
  then show ?case by simp
next
  case (Cons c cs)
  from extractBranchThread_wellTyped [OF Cons.prems] obtain ms
    where "extractBranchThread m c ids = Inr ms" by blast
  with Cons.IH [OF Cons.prems] show ?case by simp
qed

lemma branchesOfNodes_wellTyped:
  "wellTypedMapping m \<Longrightarrow> \<exists>r. branchesOfNodes m ids nodes bs = Inr r"
proof (induction nodes arbitrary: bs)
  case Nil
  then show ?case by simp
next
  case (Cons node nodes)
  from branchesOfChildren_wellTyped [OF Cons.prems] obtain mid
    where "branchesOfChildren m ids node (tl (n_children node)) bs = Inr mid" by blast
  with Cons.IH [OF Cons.prems] show ?case by simp
qed

lemma extractBranches_wellTyped:
  "wellTypedMapping m \<Longrightarrow> \<exists>bs. extractBranches m mt = Inr bs"
  unfolding extractBranches_def by (rule branchesOfNodes_wellTyped)

lemma filter_concat_distinct:
  assumes "distinct (map f xs)" "x \<in> set xs" "\<And>y b. b \<in> set (h y) \<Longrightarrow> g b = f y"
  shows "filter (\<lambda>b. g b = f x) (concat (map h xs)) = h x"
  using assms(1,2)
proof (induction xs)
  case Nil
  then show ?case by simp
next
  case (Cons y ys)
  have all: "filter (\<lambda>b. g b = f z) (h z) = h z" for z
    by (rule filter_True) (simp add: assms(3))
  have none: "filter (\<lambda>b. g b = f x) (h z) = []" if "f z \<noteq> f x" for z
    using that by (auto simp: filter_empty_conv dest: assms(3))
  show ?case
  proof (cases "x = y")
    case True
    with Cons.prems have "f x \<notin> f ` set ys" by simp
    then have "\<forall>z \<in> set ys. f z \<noteq> f x" by (metis imageI)
    then have "filter (\<lambda>b. g b = f x) (concat (map h ys)) = []"
      by (induction ys) (auto simp: none)
    with True all show ?thesis by simp
  next
    case False
    with Cons.prems have "x \<in> set ys" "f y \<noteq> f x" "distinct (map f ys)" by auto
    with Cons.IH none show ?thesis by simp
  qed
qed

lemma branchesAt_parent: "b \<in> set (branchesAt m ids node) \<Longrightarrow> b_parentMessageId b = n_id node"
  by (auto simp: branchesAt_def dest: branchOf_nonempty split: if_splits)

text \<open>
  C3, amended: in a well-typed mapping whose node ids are distinct, the branches returned
  for a node with exactly three children are those of the children with index 1 and 2
  whose descent collects at least one message, in that order; each has the node's id as
  \<^verbatim>\<open>parentMessageId\<close> and the child id as its \<^verbatim>\<open>id\<close>. The child with index 0 is never a
  branch root of that node.
\<close>

theorem three_children_branches:
  assumes "wellTypedMapping m" and "distinct (map (n_id \<circ> snd) m)"
    and "(k, node) \<in> set m" and "n_children node = [c0, c1, c2]"
  shows "\<exists>bs. extractBranches m mt = Inr bs
     \<and> filter (\<lambda>b. b_parentMessageId b = n_id node) bs =
         [\<lparr>b_id = c, b_parentMessageId = n_id node, b_messages = msgs\<rparr>.
            c \<leftarrow> [c1, c2],
            msgs \<leftarrow> (case extractBranchThread m c (set (map p_id mt)) of
                       Inl e \<Rightarrow> [] | Inr ms \<Rightarrow> [ms]),
            msgs \<noteq> []]"
proof -
  let ?ids = "set (map p_id mt)"
  from extractBranches_wellTyped [OF assms(1)] obtain bs
    where bs: "extractBranches m mt = Inr bs" by blast
  have d: "distinct (map n_id (map snd m))" using assms(2) by simp
  have n: "node \<in> set (map snd m)" using assms(3) by force
  have "filter (\<lambda>b. b_parentMessageId b = n_id node) bs = branchesAt m ?ids node"
    unfolding extractBranches_Inr [OF bs]
    by (rule filter_concat_distinct [OF d n]) (rule branchesAt_parent)
  also have "\<dots> = branchOf m ?ids node c1 @ branchOf m ?ids node c2"
    by (simp add: branchesAt_def assms(4))
  also have "\<dots> =
         [\<lparr>b_id = c, b_parentMessageId = n_id node, b_messages = msgs\<rparr>.
            c \<leftarrow> [c1, c2],
            msgs \<leftarrow> (case extractBranchThread m c ?ids of Inl e \<Rightarrow> [] | Inr ms \<Rightarrow> [ms]),
            msgs \<noteq> []]"
    by (simp add: branchOf_def split: sum.splits)
  finally show ?thesis using bs by blast
qed


text \<open>
  C3, as stated, fails: node \<open>p\<close> has exactly three children, yet \<^verbatim>\<open>extractBranches\<close>
  returns one branch for it, not two. The branch root \<open>c1\<close> holds only a system message,
  its descent collects no message, and the guard \<^verbatim>\<open>branchMessages.length > 0\<close> drops it.
\<close>

theorem three_children_one_branch:
  "(''p'', questionNode) \<in> set threeChildren
   \<and> length (n_children questionNode) = 3
   \<and> extractMainThread threeChildren None = Some (Inr threeChildrenThread)
   \<and> extractBranches threeChildren threeChildrenThread =
       Inr [\<lparr>b_id = ''c2'', b_parentMessageId = ''p'',
             b_messages = [textReply ''c2'' Assistant ''z'']\<rparr>]"
  using threeChildren_mainThread threeChildren_branches
  by (simp add: threeChildren_def questionNode_def)

text \<open>Witness for C3 as amended, on the question with three answers.\<close>

theorem three_children_branches_witness:
  "wellTypedMapping threeChildren
   \<and> distinct (map (n_id \<circ> snd) threeChildren)
   \<and> (''p'', questionNode) \<in> set threeChildren
   \<and> n_children questionNode = [''c0'', ''c1'', ''c2'']
   \<and> (\<exists>bs. extractBranches threeChildren threeChildrenThread = Inr bs
        \<and> filter (\<lambda>b. b_parentMessageId b = n_id questionNode) bs =
            [\<lparr>b_id = ''c2'', b_parentMessageId = ''p'',
              b_messages = [textReply ''c2'' Assistant ''z'']\<rparr>])"
proof -
  have d: "distinct (map (n_id \<circ> snd) threeChildren)"
    by (simp add: threeChildren_def questionNode_def)
  have i: "(''p'', questionNode) \<in> set threeChildren"
    by (simp add: threeChildren_def questionNode_def)
  have c: "n_children questionNode = [''c0'', ''c1'', ''c2'']"
    by (simp add: questionNode_def)
  from three_children_branches [OF wellTyped_threeChildren d i c, of threeChildrenThread]
  show ?thesis
    using wellTyped_threeChildren d i c threeChildren_c1 threeChildren_c2
    by (simp add: questionNode_def)
qed

subsection \<open>The main thread of a tree\<close>

lemma firstChildPath_unique:
  "firstChildPath m k p \<Longrightarrow> firstChildPath m k p' \<Longrightarrow> p' = p"
proof (induction arbitrary: p' rule: firstChildPath.induct)
  case (leaf mapping k node)
  note h = leaf.hyps
  from leaf.prems show ?case
  proof cases
    case (leaf n')
    with h show ?thesis by simp
  next
    case (step n' c' cs' path')
    with h show ?thesis by simp
  qed
next
  case (step mapping k node c cs path)
  note h = step.hyps(1,2) and ih = step.IH
  from step.prems show ?case
  proof cases
    case (leaf n')
    with h show ?thesis by simp
  next
    case (step n' c' cs' path')
    with h have "c' = c" "n' = node" by simp_all
    with step(4) have "path' = path" using ih by blast
    with step(1) \<open>n' = node\<close> show ?thesis by simp
  qed
qed

lemma firstChildPath_nodes:
  "firstChildPath m k p \<Longrightarrow> set p \<subseteq> snd ` set m"
  by (induction rule: firstChildPath.induct) (auto dest!: map_of_SomeD intro!: image_eqI)

lemma climb_mono: "climb m fuel k = Some d \<Longrightarrow> climb m (Suc fuel) k = Some d"
proof (induction fuel arbitrary: k d)
  case 0
  then show ?case by simp
next
  case (Suc fuel)
  show ?case
  proof (cases "map_of m k")
    case None
    with Suc.prems show ?thesis by simp
  next
    case (Some node)
    show ?thesis
    proof (cases "n_parent node")
      case None
      with Some Suc.prems show ?thesis by simp
    next
      case (Some p)
      with \<open>map_of m k = Some node\<close> Suc.prems obtain e where
        e: "climb m fuel p = Some e" and d: "d = Suc e" by auto
      from Suc.IH [OF e] have "climb m (Suc fuel) p = Some e" .
      with Some \<open>map_of m k = Some node\<close> d show ?thesis
        by (simp del: climb.simps add: climb.simps(2) [of m "Suc fuel" k])
    qed
  qed
qed

lemma climb_child:
  assumes c: "map_of m c = Some child" and p: "n_parent child = Some k"
    and dc: "climb m (length m) c \<noteq> None" and dk: "climb m (length m) k = Some d"
  shows "climb m (length m) c = Some (Suc d)"
proof -
  from c have "m \<noteq> []" by auto
  then obtain f where f: "length m = Suc f" by (cases m) auto
  from dc c p f obtain e where e: "climb m f k = Some e"
    and ce: "climb m (length m) c = Some (Suc e)" by auto
  from climb_mono [OF e] f dk have "e = d" by simp
  with ce show ?thesis by simp
qed

lemma processMessage_excluded:
  assumes "wellTypedMessage msg"
  shows "(excluded msg \<longrightarrow> processMessage msg = Inr None)
       \<and> (\<not> excluded msg \<longrightarrow> (\<exists>pm. processMessage msg = Inr (Some pm)))"
  using assms
  by (auto simp: wellTypedMessage_def excluded_def resolvedText_def processMessage_def Let_def
      split: option.splits)

lemma wellTyped_node:
  "wellTypedMapping m \<Longrightarrow> node \<in> snd ` set m \<Longrightarrow> n_message node = Some msg
     \<Longrightarrow> wellTypedMessage msg"
  by (auto simp: wellTypedMapping_def list_all_iff)

lemma recordMessage_processedOf:
  assumes "wellTypedMapping m" "node \<in> snd ` set m"
  shows "recordMessage node msgs = Inr (msgs @ processedOf node)"
proof (cases "n_message node")
  case None
  then show ?thesis by (simp add: recordMessage_def processedOf_def)
next
  case (Some msg)
  from processMessage_excluded [OF wellTyped_node [OF assms Some]] Some show ?thesis
    by (cases "excluded msg") (auto simp: recordMessage_def processedOf_def)
qed

lemma processedOf_spec:
  assumes "wellTypedMapping m" "set path \<subseteq> snd ` set m"
  shows "map (\<lambda>pm. Inr (Some pm)) (concat (map processedOf path)) =
           map processMessage (filter (\<lambda>msg. \<not> excluded msg) (pathMessages path))"
  using assms(2)
proof (induction path)
  case Nil
  then show ?case by (simp add: pathMessages_def)
next
  case (Cons node path)
  then have ih: "map (\<lambda>pm. Inr (Some pm)) (concat (map processedOf path)) =
           map processMessage (filter (\<lambda>msg. \<not> excluded msg) (pathMessages path))"
    and n: "node \<in> snd ` set m" by auto
  have "map (\<lambda>pm. Inr (Some pm)) (processedOf node) =
          map processMessage (filter (\<lambda>msg. \<not> excluded msg) (pathMessages [node]))"
  proof (cases "n_message node")
    case None
    then show ?thesis by (simp add: processedOf_def pathMessages_def)
  next
    case (Some msg)
    from processMessage_excluded [OF wellTyped_node [OF assms(1) n Some]] Some show ?thesis
      by (cases "excluded msg") (auto simp: processedOf_def pathMessages_def)
  qed
  with ih show ?case by (simp add: pathMessages_def)
qed

lemma mainThreadLoop_tree:
  "list_all (\<lambda>(k, node). n_id node = k) m \<Longrightarrow>
   list_all (\<lambda>(k, node).
            list_all (\<lambda>c. case map_of m c of
                             None \<Rightarrow> False
                           | Some child \<Rightarrow> n_parent child = Some k) (n_children node)) m \<Longrightarrow>
   list_all (\<lambda>(k, node). climb m (length m) k \<noteq> None) m \<Longrightarrow>
   wellTypedMapping m \<Longrightarrow>
   nodeOpt = Some node \<Longrightarrow> map_of m k = Some node \<Longrightarrow> climb m (length m) k = Some d \<Longrightarrow>
   (\<forall>v \<in> visited. \<exists>e. climb m (length m) v = Some e \<and> e < d) \<Longrightarrow>
   \<exists>path. firstChildPath m k path
     \<and> mainThreadLoop m visited nodeOpt msgs = Inr (msgs @ concat (map processedOf path))"
proof (induction m visited nodeOpt msgs arbitrary: node k d rule: mainThreadLoop.induct)
  case (1 mapping visited messages)
  then show ?case by simp
next
  case (2 m visited node0 msgs)
  from "2.prems"(5) have node: "node0 = node" by simp
  note ids = "2.prems"(1) and ch = "2.prems"(2) and ac = "2.prems"(3) and wt = "2.prems"(4)
  note mk = "2.prems"(6) and dk = "2.prems"(7) and vis = "2.prems"(8)
  from mk have inm: "(k, node) \<in> set m" by (rule map_of_SomeD)
  then have nm: "node \<in> snd ` set m" by force
  from inm ids have idk: "n_id node = k" by (auto simp: list_all_iff)
  have nv: "n_id node \<notin> visited"
  proof
    assume "n_id node \<in> visited"
    with vis idk dk show False by force
  qed
  have rm: "recordMessage node msgs = Inr (msgs @ processedOf node)"
    by (rule recordMessage_processedOf [OF wt nm])
  show ?case
  proof (cases "n_children node")
    case Nil
    with mk have "firstChildPath m k [node]" by (rule firstChildPath.leaf)
    moreover from Nil nv rm node
    have "mainThreadLoop m visited (Some node0) msgs = Inr (msgs @ concat (map processedOf [node]))"
      by simp
    ultimately show ?thesis by blast
  next
    case (Cons c cs)
    from inm ch Cons obtain child where
      mc: "map_of m c = Some child" and pc: "n_parent child = Some k"
      by (fastforce simp: list_all_iff split: option.splits)
    from mc have "(c, child) \<in> set m" by (rule map_of_SomeD)
    with ac have "climb m (length m) c \<noteq> None" by (auto simp: list_all_iff)
    from climb_child [OF mc pc this dk] have dc: "climb m (length m) c = Some (Suc d)" .
    have vis': "\<forall>v \<in> insert (n_id node0) visited. \<exists>e. climb m (length m) v = Some e \<and> e < Suc d"
      using vis idk dk node by (auto intro: less_SucI)
    from "2.IH" [of "msgs @ processedOf node" c cs child c "Suc d"] nv rm Cons node
      ids ch ac wt mc dc vis'
    obtain path where p: "firstChildPath m c path"
      and l: "mainThreadLoop m (insert (n_id node0) visited) (map_of m c) (msgs @ processedOf node)
                = Inr ((msgs @ processedOf node) @ concat (map processedOf path))"
      by auto
    from mk Cons p have "firstChildPath m k (node # path)" by (rule firstChildPath.step)
    moreover from Cons nv rm node l
    have "mainThreadLoop m visited (Some node0) msgs = Inr (msgs @ concat (map processedOf (node # path)))"
      by simp
    ultimately show ?thesis by blast
  qed
qed

lemma filter_single_find: "filter P xs = [x] \<Longrightarrow> find P xs = Some x"
proof (induction xs)
  case Nil
  then show ?case by simp
next
  case (Cons y ys)
  then show ?case by (cases "P y") auto
qed

lemma find_map_snd: "find Q (map snd xs) = map_option snd (find (\<lambda>p. Q (snd p)) xs)"
  by (induction xs) auto

lemma filter_single_unique:
  assumes "filter P xs = [x]" "y \<in> set xs" "P y"
  shows "y = x"
proof -
  from assms(2,3) have "y \<in> set (filter P xs)" by simp
  with assms(1) show ?thesis by simp
qed

text \<open>
  C2: let the mapping be a tree whose messages are of the declared \<^verbatim>\<open>Message\<close> type.
  Then the mapping has exactly one node without a parent, there is exactly one path
  from it along first children to a node without children, \<^verbatim>\<open>extractMainThread\<close>
  returns (whatever \<^verbatim>\<open>currentNode\<close> is), and the thread it returns consists of the
  processed forms of the messages on that path that are not excluded (system role,
  or empty resolved text), in path order, and of nothing else.
\<close>

theorem extractMainThread_tree:
  assumes "isTree m" and "wellTypedMapping m"
  shows "\<exists>k root path thread.
           (k, root) \<in> set m \<and> n_parent root = None
         \<and> (\<forall>k' n'. (k', n') \<in> set m \<and> n_parent n' = None \<longrightarrow> (k', n') = (k, root))
         \<and> firstChildPath m k path
         \<and> (\<forall>path'. firstChildPath m k path' \<longrightarrow> path' = path)
         \<and> extractMainThread m currentNode = Some (Inr thread)
         \<and> map (\<lambda>pm. Inr (Some pm)) thread =
             map processMessage (filter (\<lambda>msg. \<not> excluded msg) (pathMessages path))"
proof -
  let ?P = "\<lambda>(k, node). n_parent node = None"
  from assms(1) have dist: "distinct (map fst m)"
    and ids: "list_all (\<lambda>(k, node). n_id node = k) m"
    and one: "length (filter ?P m) = 1"
    and ch: "list_all (\<lambda>(k, node).
            list_all (\<lambda>c. case map_of m c of
                             None \<Rightarrow> False
                           | Some child \<Rightarrow> n_parent child = Some k) (n_children node)) m"
    and ac: "list_all (\<lambda>(k, node). climb m (length m) k \<noteq> None) m"
    by (simp_all add: isTree_def)
  from one obtain x where fx: "filter ?P m = [x]"
    by (cases "filter ?P m") auto
  obtain k root where x: "x = (k, root)" by (cases x)
  from fx have "x \<in> set (filter ?P m)" by simp
  with x have inm: "(k, root) \<in> set m" and pr: "n_parent root = None" by auto
  have uniq: "\<forall>k' n'. (k', n') \<in> set m \<and> n_parent n' = None \<longrightarrow> (k', n') = (k, root)"
    using filter_single_unique [OF fx] x by auto
  from filter_single_find [OF fx] x
  have "find (\<lambda>p. n_parent (snd p) = None) m = Some (k, root)"
    by (simp add: case_prod_unfold)
  then have fr: "find (\<lambda>n. n_parent n = None) (map snd m) = Some root"
    by (simp add: find_map_snd)
  from dist inm have mk: "map_of m k = Some root" by simp
  from inm obtain f where "length m = Suc f" by (cases m) auto
  with mk pr have d0: "climb m (length m) k = Some 0" by simp
  from mainThreadLoop_tree [OF ids ch ac assms(2) refl mk d0, of "{}" "[]"]
  obtain path where p: "firstChildPath m k path"
    and l: "mainThreadLoop m {} (Some root) [] = Inr (concat (map processedOf path))"
    by auto
  from fr l have e: "extractMainThread m currentNode = Some (Inr (concat (map processedOf path)))"
    by (simp add: extractMainThread_def findRoot_def)
  from processedOf_spec [OF assms(2) firstChildPath_nodes [OF p]]
  have s: "map (\<lambda>pm. Inr (Some pm)) (concat (map processedOf path)) =
           map processMessage (filter (\<lambda>msg. \<not> excluded msg) (pathMessages path))" .
  from firstChildPath_unique [OF p]
  have u: "\<forall>path'. firstChildPath m k path' \<longrightarrow> path' = path" by blast
  from inm pr uniq p u e s show ?thesis by blast
qed

lemma isTree_threeChildren: "isTree threeChildren"
  by (simp add: isTree_def threeChildren_def questionNode_def)


text \<open>
  Witness for C2: the question with three answers is such a tree; its path runs from
  \<open>p\<close> to \<open>c0\<close>, and the thread is the question and the first answer.
\<close>

theorem extractMainThread_tree_witness:
  "isTree threeChildren \<and> wellTypedMapping threeChildren
   \<and> (\<exists>path. firstChildPath threeChildren ''p'' path
         \<and> extractMainThread threeChildren None = Some (Inr threeChildrenThread)
         \<and> map (\<lambda>pm. Inr (Some pm)) threeChildrenThread =
             map processMessage (filter (\<lambda>msg. \<not> excluded msg) (pathMessages path)))"
proof -
  have wt: "wellTypedMapping threeChildren"
    by (simp add: wellTypedMapping_def threeChildren_def questionNode_def wellTypedMessage_def
        textMessage_def)
  from extractMainThread_tree [OF isTree_threeChildren wt, of None]
  obtain k root path thread where
    r: "(k, root) \<in> set threeChildren" "n_parent root = None"
    and p: "firstChildPath threeChildren k path"
    and e: "extractMainThread threeChildren None = Some (Inr thread)"
    and s: "map (\<lambda>pm. Inr (Some pm)) thread =
             map processMessage (filter (\<lambda>msg. \<not> excluded msg) (pathMessages path))"
    by blast
  from r have k: "k = ''p''"
    by (auto simp: threeChildren_def questionNode_def)
  from e have t: "thread = threeChildrenThread"
    by (simp add: extractMainThread_def findRoot_def threeChildren_def questionNode_def
      recordMessage_def processMessage_def textMessage_def threeChildrenThread_def textReply_def
      matchAt_def fence_def Let_def)
  from isTree_threeChildren wt p e s k t show ?thesis by blast
qed

subsection \<open>Batches\<close>

lemma processConversation_noMapping:
  "processConversation noMappingConversation =
     Some (Inl (TypeError ''Cannot convert undefined or null to object''))"
  by (simp add: processConversation_def noMappingConversation_def)

lemma processConversation_scenario_None:
  "processConversation (scenarioConversation None) =
     Some (Inl (TypeError ''Cannot read properties of undefined (reading model_slug)''))"
  by (simp add: scenarioConversation_def
      processConversation_def extractMainThread_def findRoot_def
      scenarioMapping_def recordMessage_def processMessage_scenario_None)

lemma processConversation_scenario_Some:
  "\<exists>pc. processConversation (scenarioConversation (Some md)) = Some (Inr pc) \<and> pc_id pc = ''c1''"
  by (simp add: scenarioConversation_def
      processConversation_def extractMainThread_def findRoot_def
      scenarioMapping_def recordMessage_def processMessage_scenario_Some extractBranches_def)

lemma processConversation_cycle: "processConversation cycleConversation = None"
  using extractMainThread_cycle_hangs
  by (simp add: processConversation_def cycleConversation_def)

text \<open>
  C9 (the code departs from it). The claim: no throw of the processing of one
  conversation leaves \<^verbatim>\<open>processConversations\<close>, which returns the results of all others.
  For the export \<^verbatim>\<open>{"conversations": [c, null]}\<close>, with \<open>c\<close> the scenario's conversation
  (processed without a throw), the processing of the \<^verbatim>\<open>null\<close> entry throws, the \<^verbatim>\<open>catch\<close>
  block throws again at \<^verbatim>\<open>conversation.id\<close>, and \<^verbatim>\<open>processConversations\<close> throws that
  TypeError: the result of \<open>c\<close> is lost.
\<close>

theorem processConversations_null_entry_throws:
  "\<exists>pc. processConversation validConversation = Some (Inr pc)
     \<and> processConversations \<lparr>conversations = [Some validConversation, None]\<rparr>
         = Some (Inl (TypeError ''Cannot read properties of null (reading id)''))"
  using processConversation_scenario_Some
    [of "\<lparr>md_model_slug = None, md_citations = None\<rparr>"]
  by (auto simp: processConversations_def validConversation_def)

text \<open>
  A batch also fails to return when one of its conversations has the cyclic mapping on
  which the walk to the root does not end.
\<close>

lemma processConversations_cycle_hangs:
  "processConversations \<lparr>conversations = [Some validConversation, Some cycleConversation]\<rparr>
     = None"
  using processConversation_scenario_Some
    [of "\<lparr>md_model_slug = None, md_citations = None\<rparr>"] processConversation_cycle
  by (auto simp: processConversations_def validConversation_def)

lemma tryEach_returns:
  "\<forall>entry \<in> set entries. \<exists>c. entry = Some c \<and> processConversation c \<noteq> None \<Longrightarrow>
     \<exists>rs. tryEach entries = Some (Inr rs)
       \<and> concat (map (\<lambda>r. case r of None \<Rightarrow> [] | Some pc \<Rightarrow> [pc]) rs) = successes entries"
proof (induction entries)
  case Nil
  then show ?case by (simp add: successes_def)
next
  case (Cons entry entries)
  from Cons.prems obtain c r where c: "entry = Some c" and r: "processConversation c = Some r"
    by auto
  from Cons obtain rs where rs: "tryEach entries = Some (Inr rs)"
    "concat (map (\<lambda>r. case r of None \<Rightarrow> [] | Some pc \<Rightarrow> [pc]) rs) = successes entries"
    by auto
  from c r rs show ?case
    by (cases r) (simp_all add: successes_def)
qed

text \<open>
  X5: when every entry of the export is a conversation (not \<^verbatim>\<open>null\<close>) whose processing
  comes to an end (a result or a throw), \<^verbatim>\<open>processConversations\<close> returns a list and no
  throw leaves it: the list holds the results of the conversations that did not throw,
  in input order, and omits the others.
\<close>

theorem processConversations_skips_failures:
  assumes "\<forall>entry \<in> set (conversations chatGPTExport).
             \<exists>c. entry = Some c \<and> processConversation c \<noteq> None"
  shows "processConversations chatGPTExport =
           Some (Inr (concat (map (\<lambda>entry. case entry of
                                      None \<Rightarrow> []
                                    | Some c \<Rightarrow>
                                        (case processConversation c of
                                           Some (Inr pc) \<Rightarrow> [pc]
                                         | _ \<Rightarrow> [])) (conversations chatGPTExport))))"
  using tryEach_returns [OF assms]
  by (auto simp: processConversations_def successes_def)

text \<open>
  Witness for X5: of three conversations the second has no mapping and throws a
  TypeError; the batch returns the results of the first and the third.
\<close>

theorem processConversations_skips_failures_witness:
  "\<exists>pc1 pc2.
     processConversation (scenarioConversation (Some \<lparr>md_model_slug = Some ''m'', md_citations = None\<rparr>)) = Some (Inr pc1)
   \<and> processConversation noMappingConversation = Some (Inl (TypeError ''Cannot convert undefined or null to object''))
   \<and> processConversation (scenarioConversation (Some \<lparr>md_model_slug = None, md_citations = None\<rparr>)) = Some (Inr pc2)
   \<and> processConversations \<lparr>conversations =
         [Some (scenarioConversation (Some \<lparr>md_model_slug = Some ''m'', md_citations = None\<rparr>)),
          Some noMappingConversation,
          Some (scenarioConversation (Some \<lparr>md_model_slug = None, md_citations = None\<rparr>))]\<rparr>
       = Some (Inr [pc1, pc2])"
proof -
  let ?a = "scenarioConversation (Some \<lparr>md_model_slug = Some ''m'', md_citations = None\<rparr>)"
  let ?b = "scenarioConversation (Some \<lparr>md_model_slug = None, md_citations = None\<rparr>)"
  obtain pc1 where 1: "processConversation ?a = Some (Inr pc1)"
    using processConversation_scenario_Some by blast
  obtain pc2 where 2: "processConversation ?b = Some (Inr pc2)"
    using processConversation_scenario_Some by blast
  have "\<forall>entry \<in> set (conversations
            \<lparr>conversations = [Some ?a, Some noMappingConversation, Some ?b]\<rparr>).
          \<exists>c. entry = Some c \<and> processConversation c \<noteq> None"
    using 1 2 processConversation_noMapping by simp
  from processConversations_skips_failures [OF this] 1 2 processConversation_noMapping
  show ?thesis by simp
qed

section \<open>Properties of the scraper\<close>

subsection \<open>Retries\<close>

lemma calculateDelay_eq:
  "calculateDelay pf attempt config s =
     (backoffDelay config attempt (mathRandom pf (randomCalls s)),
      s\<lparr>randomCalls := Suc (randomCalls s)\<rparr>)"
  by (simp add: calculateDelay_def backoffDelay_def nextRandom_def Let_def)

lemma retryLoop_success:
  assumes "int attempt < maxRetries config" "operation (world s) = (Inr v, w)"
  shows "retryLoop pf operation name config attempt lastError s =
           (Inr v, s\<lparr>world := w, events := events s @ [Invoked name]\<rparr>)"
  using assms by (subst retryLoop.simps) simp

lemma retryLoop_failure_retry:
  assumes "int attempt < maxRetries config - 1" "operation (world s) = (Inl msg, w)"
  shows "retryLoop pf operation name config attempt lastError s =
           retryLoop pf operation name config (Suc attempt) (Some msg)
             (s\<lparr>world := w,
                events := events s @ [Invoked name,
                  Slept (backoffDelay config attempt (mathRandom pf (randomCalls s)))],
                randomCalls := Suc (randomCalls s)\<rparr>)"
  using assms
  by (subst retryLoop.simps, cases s) (simp add: calculateDelay_eq sleep_def)

lemma retryLoop_failure_last:
  assumes "int attempt = maxRetries config - 1" "operation (world s) = (Inl msg, w)"
  shows "retryLoop pf operation name config attempt lastError s =
           (Inl (Error (name @ '' failed after '' @ showInt (maxRetries config)
                          @ '' attempts: '' @ msg)),
            s\<lparr>world := w, events := events s @ [Invoked name]\<rparr>)"
proof -
  from assms(1) have lt: "int attempt < maxRetries config" and nlt: "\<not> int attempt < maxRetries config - 1"
    and fin: "\<not> int (Suc attempt) < maxRetries config" by simp_all
  have "retryLoop pf operation name config attempt lastError s =
          retryLoop pf operation name config (Suc attempt) (Some msg)
            (s\<lparr>world := w, events := events s @ [Invoked name]\<rparr>)"
    using lt nlt assms(2) by (subst retryLoop.simps) simp
  also have "\<dots> = (Inl (Error (name @ '' failed after '' @ showInt (maxRetries config)
                          @ '' attempts: '' @ msg)),
            s\<lparr>world := w, events := events s @ [Invoked name]\<rparr>)"
    using fin by (subst retryLoop.simps) simp
  finally show ?thesis .
qed

lemma showInt_3: "showInt 3 = ''3''"
  by (simp add: showInt_def showNat.simps [of 3] digitChar_def)


text \<open>
  C5: with \<^verbatim>\<open>maxRetries = 3\<close>, an operation that fails on its first two invocations and
  succeeds on the third makes \<^verbatim>\<open>retryOperation\<close> return the success after exactly three
  invocations; an operation that fails on all three makes it throw after exactly three
  invocations. In both runs the events are: invocation, sleep, invocation, sleep,
  invocation. The sleep after the failed attempt \<open>k\<close> lasts
  \<open>min(minDelay * backoffMultiplier^k, maxDelay)\<close> plus \<^verbatim>\<open>Math.random()\<close> times
  \<^verbatim>\<open>jitterRange\<close>, and no sleep follows the last invocation.
\<close>

theorem retryOperation_three_attempts:
  assumes "maxRetries config = 3"
  shows "(operation (world s) = (Inl e1, w1) \<and> operation w1 = (Inl e2, w2)
            \<and> operation w2 = (Inr v, w3)
          \<longrightarrow> retryOperation pf operation name config s =
                (Inr v,
                 s\<lparr>world := w3,
                   events := events s @
                     [Invoked name,
                      Slept (backoffDelay config 0 (mathRandom pf (randomCalls s))),
                      Invoked name,
                      Slept (backoffDelay config 1 (mathRandom pf (randomCalls s + 1))),
                      Invoked name],
                   randomCalls := randomCalls s + 2\<rparr>))
       \<and> (operation (world s) = (Inl e1, w1) \<and> operation w1 = (Inl e2, w2)
            \<and> operation w2 = (Inl e3, w3)
          \<longrightarrow> retryOperation pf operation name config s =
                (Inl (Error (name @ '' failed after 3 attempts: '' @ e3)),
                 s\<lparr>world := w3,
                   events := events s @
                     [Invoked name,
                      Slept (backoffDelay config 0 (mathRandom pf (randomCalls s))),
                      Invoked name,
                      Slept (backoffDelay config 1 (mathRandom pf (randomCalls s + 1))),
                      Invoked name],
                   randomCalls := randomCalls s + 2\<rparr>))"
proof (intro conjI impI)
  assume a: "operation (world s) = (Inl e1, w1) \<and> operation w1 = (Inl e2, w2)
            \<and> operation w2 = (Inr v, w3)"
  let ?s1 = "s\<lparr>world := w1,
                events := events s @ [Invoked name,
                  Slept (backoffDelay config 0 (mathRandom pf (randomCalls s)))],
                randomCalls := Suc (randomCalls s)\<rparr>"
  let ?s2 = "?s1\<lparr>world := w2,
                events := events ?s1 @ [Invoked name,
                  Slept (backoffDelay config 1 (mathRandom pf (randomCalls ?s1)))],
                randomCalls := Suc (randomCalls ?s1)\<rparr>"
  have 1: "retryLoop pf operation name config 0 None s =
             retryLoop pf operation name config 1 (Some e1) ?s1"
    using assms a by (subst retryLoop_failure_retry [where msg = e1 and w = w1]) simp_all
  have 2: "retryLoop pf operation name config 1 (Some e1) ?s1 =
             retryLoop pf operation name config 2 (Some e2) ?s2"
    using assms a
    by (subst retryLoop_failure_retry [where msg = e2 and w = w2]) (simp_all add: numeral_2_eq_2)
  have 3: "retryLoop pf operation name config 2 (Some e2) ?s2 =
             (Inr v, ?s2\<lparr>world := w3, events := events ?s2 @ [Invoked name]\<rparr>)"
    using assms a by (subst retryLoop_success [where v = v and w = w3]) simp_all
  show "retryOperation pf operation name config s =
                (Inr v,
                 s\<lparr>world := w3,
                   events := events s @
                     [Invoked name,
                      Slept (backoffDelay config 0 (mathRandom pf (randomCalls s))),
                      Invoked name,
                      Slept (backoffDelay config 1 (mathRandom pf (randomCalls s + 1))),
                      Invoked name],
                   randomCalls := randomCalls s + 2\<rparr>)"
    unfolding retryOperation_def 1 2 3 by simp
next
  assume a: "operation (world s) = (Inl e1, w1) \<and> operation w1 = (Inl e2, w2)
            \<and> operation w2 = (Inl e3, w3)"
  let ?s1 = "s\<lparr>world := w1,
                events := events s @ [Invoked name,
                  Slept (backoffDelay config 0 (mathRandom pf (randomCalls s)))],
                randomCalls := Suc (randomCalls s)\<rparr>"
  let ?s2 = "?s1\<lparr>world := w2,
                events := events ?s1 @ [Invoked name,
                  Slept (backoffDelay config 1 (mathRandom pf (randomCalls ?s1)))],
                randomCalls := Suc (randomCalls ?s1)\<rparr>"
  have 1: "retryLoop pf operation name config 0 None s =
             retryLoop pf operation name config 1 (Some e1) ?s1"
    using assms a by (subst retryLoop_failure_retry [where msg = e1 and w = w1]) simp_all
  have 2: "retryLoop pf operation name config 1 (Some e1) ?s1 =
             retryLoop pf operation name config 2 (Some e2) ?s2"
    using assms a
    by (subst retryLoop_failure_retry [where msg = e2 and w = w2]) (simp_all add: numeral_2_eq_2)
  have 3: "retryLoop pf operation name config 2 (Some e2) ?s2 =
             (Inl (Error (name @ '' failed after '' @ showInt (maxRetries config)
                          @ '' attempts: '' @ e3)),
              ?s2\<lparr>world := w3, events := events ?s2 @ [Invoked name]\<rparr>)"
    using assms a by (subst retryLoop_failure_last [where msg = e3 and w = w3]) simp_all
  show "retryOperation pf operation name config s =
                (Inl (Error (name @ '' failed after 3 attempts: '' @ e3)),
                 s\<lparr>world := w3,
                   events := events s @
                     [Invoked name,
                      Slept (backoffDelay config 0 (mathRandom pf (randomCalls s))),
                      Invoked name,
                      Slept (backoffDelay config 1 (mathRandom pf (randomCalls s + 1))),
                      Invoked name],
                   randomCalls := randomCalls s + 2\<rparr>)"
    unfolding retryOperation_def 1 2 3 using assms by (simp add: showInt_3)
qed


text \<open>
  Witness for C5, with the default configuration: the delays are 1750 and 2500
  milliseconds.
\<close>

theorem retryOperation_three_attempts_witness:
  "maxRetries DEFAULT_SCRAPER_CONFIG = 3
   \<and> retryOperation quietPlatform flakyOperation ''op'' DEFAULT_SCRAPER_CONFIG (startWith emptyStorage)
       = (Inr 2, \<lparr>world = 3, storage = emptyStorage,
                  events = [Invoked ''op'', Slept 1750, Invoked ''op'', Slept 2500, Invoked ''op''],
                  randomCalls = 2\<rparr>)
   \<and> retryOperation quietPlatform failingOperation ''op'' DEFAULT_SCRAPER_CONFIG (startWith emptyStorage)
       = (Inl (Error ''op failed after 3 attempts: timeout''),
          \<lparr>world = 3, storage = emptyStorage,
           events = [Invoked ''op'', Slept 1750, Invoked ''op'', Slept 2500, Invoked ''op''],
           randomCalls = 2\<rparr>)"
proof -
  have m: "maxRetries DEFAULT_SCRAPER_CONFIG = 3"
    by (simp add: DEFAULT_SCRAPER_CONFIG_def)
  have d0: "backoffDelay DEFAULT_SCRAPER_CONFIG 0 (1 / 2) = 1750"
    and d1: "backoffDelay DEFAULT_SCRAPER_CONFIG (Suc 0) (1 / 2) = 2500"
    by (simp_all add: backoffDelay_def DEFAULT_SCRAPER_CONFIG_def)
  have f: "flakyOperation (world (startWith emptyStorage)) = (Inl ''timeout'', 1)
         \<and> flakyOperation 1 = (Inl ''timeout'', 2) \<and> flakyOperation 2 = (Inr 2, 3)"
    by (simp add: flakyOperation_def startWith_def)
  have g: "failingOperation (world (startWith emptyStorage)) = (Inl ''timeout'', 1)
         \<and> failingOperation 1 = (Inl ''timeout'', 2) \<and> failingOperation 2 = (Inl ''timeout'', 3)"
    by (simp add: failingOperation_def startWith_def)
  from retryOperation_three_attempts [OF m, where operation = flakyOperation
      and s = "startWith emptyStorage" and ?e1.0 = "''timeout''" and ?w1.0 = 1
      and ?e2.0 = "''timeout''" and ?w2.0 = 2 and v = 2 and ?w3.0 = 3 and pf = quietPlatform
      and name = "''op''"] f
  have 1: "retryOperation quietPlatform flakyOperation ''op'' DEFAULT_SCRAPER_CONFIG (startWith emptyStorage)
       = (Inr 2, \<lparr>world = 3, storage = emptyStorage,
                  events = [Invoked ''op'', Slept 1750, Invoked ''op'', Slept 2500, Invoked ''op''],
                  randomCalls = 2\<rparr>)"
    by (simp add: startWith_def quietPlatform_def d0 d1)
  from retryOperation_three_attempts [OF m, where operation = failingOperation
      and s = "startWith emptyStorage" and ?e1.0 = "''timeout''" and ?w1.0 = 1
      and ?e2.0 = "''timeout''" and ?w2.0 = 2 and ?e3.0 = "''timeout''" and ?w3.0 = 3
      and pf = quietPlatform and name = "''op''"] g
  have 2: "retryOperation quietPlatform failingOperation ''op'' DEFAULT_SCRAPER_CONFIG (startWith emptyStorage)
       = (Inl (Error ''op failed after 3 attempts: timeout''),
          \<lparr>world = 3, storage = emptyStorage,
           events = [Invoked ''op'', Slept 1750, Invoked ''op'', Slept 2500, Invoked ''op''],
           randomCalls = 2\<rparr>)"
    by (simp add: startWith_def quietPlatform_def d0 d1)
  from m 1 2 show ?thesis by simp
qed


subsection \<open>Rate limiting\<close>

text \<open>
  C6, as stated, fails: the source adds the jitter to \<^verbatim>\<open>minDelay\<close> first and multiplies
  the sum by the progress multiplier. At index 100, with the default configuration and
  \<^verbatim>\<open>Math.random()\<close> one half, \<^verbatim>\<open>smartDelay\<close> sleeps (1500 + 250) * 1.5 = 2625
  milliseconds; the spec's formula gives 1500 * 1.5 + 250 = 2500.
\<close>

theorem smartDelay_not_spec_formula:
  "events (smartDelay quietPlatform 100 DEFAULT_SCRAPER_CONFIG (startWith emptyStorage))
     = [Slept 2625]
   \<and> specRateLimiterDelay 100 (minDelay DEFAULT_SCRAPER_CONFIG)
         (jitterRange DEFAULT_SCRAPER_CONFIG) (maxDelay DEFAULT_SCRAPER_CONFIG)
         (mathRandom quietPlatform 0) = 2500"
  by (simp add: smartDelay_def nextRandom_def sleep_def Let_def quietPlatform_def
      DEFAULT_SCRAPER_CONFIG_def startWith_def specRateLimiterDelay_def)


text \<open>
  C6, amended: the delay of \<^verbatim>\<open>smartDelay\<close> is
  \<open>min(minDelay * (1 + 0.5 * index / 100) + jitter * (1 + 0.5 * index / 100), maxDelay)\<close>
  with \<open>jitter\<close> the value of \<^verbatim>\<open>Math.random()\<close> times \<^verbatim>\<open>jitterRange\<close>: the progress
  multiplier scales the jitter as well.
\<close>

theorem smartDelay_scales_jitter:
  "smartDelay pf conversationIndex config s =
     s\<lparr>events := events s @
          [Slept (min (minDelay config * (1 + (1 / 2) * real conversationIndex / 100)
                       + mathRandom pf (randomCalls s) * jitterRange config
                           * (1 + (1 / 2) * real conversationIndex / 100))
                      (maxDelay config))],
       randomCalls := Suc (randomCalls s)\<rparr>"
proof -
  have "(minDelay config + mathRandom pf (randomCalls s) * jitterRange config)
          * (1 + real conversationIndex / 100 * (1 / 2))
        = minDelay config * (1 + (1 / 2) * real conversationIndex / 100)
          + mathRandom pf (randomCalls s) * jitterRange config
              * (1 + (1 / 2) * real conversationIndex / 100)"
    by (simp add: algebra_simps)
  then show ?thesis
    by (cases s) (simp add: smartDelay_def nextRandom_def sleep_def Let_def)
qed


subsection \<open>Saving and loading the progress\<close>











subsection \<open>Resuming a session\<close>














section \<open>Further properties\<close>

text \<open>
  X1: \<^verbatim>\<open>extractMainThread\<close> returns whenever the walk to the root is not taken: when some
  node has no parent, or \<^verbatim>\<open>currentNode\<close> is \<^verbatim>\<open>null\<close>, empty or no key of the mapping.
\<close>

theorem extractMainThread_returns:
  assumes "(\<exists>node \<in> snd ` set m. n_parent node = None)
           \<or> currentNode = None \<or> currentNode = Some [] \<or> (\<exists>k. currentNode = Some k \<and> map_of m k = None)"
  shows "\<exists>r. extractMainThread m currentNode = Some r"
proof (cases "find (\<lambda>n. n_parent n = None) (map snd m)")
  case (Some node)
  then show ?thesis by (simp add: extractMainThread_def findRoot_def)
next
  case None
  then have "\<not> (\<exists>node \<in> snd ` set m. n_parent node = None)"
    by (auto simp: find_None_iff)
  with assms have "currentNode = None \<or> currentNode = Some [] \<or> (\<exists>k. currentNode = Some k \<and> map_of m k = None)"
    by blast
  with None show ?thesis
    by (auto simp: extractMainThread_def findRoot_def)
qed

text \<open>Witness for X1: the two-node cycle with a \<^verbatim>\<open>current_node\<close> that is not a key.\<close>

theorem extractMainThread_returns_witness:
  "(\<exists>k. Some ''x'' = Some k \<and> map_of cycleMapping k = None)
   \<and> extractMainThread cycleMapping (Some ''x'') = Some (Inr [])"
proof -
  have h: "\<exists>k. Some ''x'' = Some k \<and> map_of cycleMapping k = None"
    by (simp add: cycleMapping_def)
  then have "(\<exists>node \<in> snd ` set cycleMapping. n_parent node = None)
           \<or> Some ''x'' = None \<or> Some ''x'' = Some [] \<or> (\<exists>k. Some ''x'' = Some k \<and> map_of cycleMapping k = None)"
    by blast
  from extractMainThread_returns [OF this] obtain r
    where r: "extractMainThread cycleMapping (Some ''x'') = Some r" by blast
  then have "r = Inr []"
    by (simp add: extractMainThread_def findRoot_def cycleMapping_def cycleNodeA_def
        cycleNodeB_def recordMessage_def)
  with h r show ?thesis by simp
qed

text \<open>
  X2: a processed message never has the role tool or system, its text is not empty, and
  it keeps the id of the message it comes from.
\<close>

theorem processMessage_roles:
  assumes "processMessage msg = Inr (Some pm)"
  shows "p_role pm \<noteq> Tool \<and> p_role pm \<noteq> System \<and> p_content pm \<noteq> [] \<and> p_id pm = m_id msg"
  using assms
  by (auto simp: processMessage_def Let_def split: option.splits if_splits)

text \<open>Witness for X2: a tool message is processed to an assistant message.\<close>

theorem processMessage_roles_witness:
  "processMessage (textMessage ''t'' Tool ''r'') = Inr (Some (textReply ''t'' Assistant ''r''))
   \<and> p_role (textReply ''t'' Assistant ''r'') \<noteq> Tool
   \<and> p_role (textReply ''t'' Assistant ''r'') \<noteq> System
   \<and> p_content (textReply ''t'' Assistant ''r'') \<noteq> []"
proof -
  have e: "processMessage (textMessage ''t'' Tool ''r'') = Inr (Some (textReply ''t'' Assistant ''r''))"
    by (simp add: processMessage_textMessage)
  from processMessage_roles [OF e] e show ?thesis by simp
qed

text \<open>
  X3: a processed conversation has a non-empty title and the id of its source, and its
  message count is the length of its main thread.
\<close>

theorem processConversation_title:
  assumes "processConversation c = Some (Inr pc)"
  shows "pc_title pc \<noteq> [] \<and> pc_id pc = cv_id c \<and> pc_messageCount pc = length (pc_messages pc)
       \<and> totalMessages (pc_metadata pc) = pc_messageCount pc"
  using assms
  by (auto simp: processConversation_def generateMetadata_def
      split: option.splits sum.splits if_splits)

text \<open>Witness for X3: the scenario's conversation without a title gets the default title.\<close>

theorem processConversation_title_witness:
  "\<exists>pc. processConversation ((scenarioConversation (Some \<lparr>md_model_slug = None, md_citations = None\<rparr>))\<lparr>cv_title := None\<rparr>) = Some (Inr pc)
     \<and> pc_title pc = ''Untitled Conversation'' \<and> pc_title pc \<noteq> [] \<and> pc_messageCount pc = 1"
proof -
  let ?c = "(scenarioConversation (Some \<lparr>md_model_slug = None, md_citations = None\<rparr>))\<lparr>cv_title := None\<rparr>"
  have "\<exists>pc. processConversation ?c = Some (Inr pc) \<and> pc_title pc = ''Untitled Conversation'' \<and> length (pc_messages pc) = 1"
    by (simp add: scenarioConversation_def
      processConversation_def extractMainThread_def findRoot_def
      scenarioMapping_def recordMessage_def processMessage_scenario_Some extractBranches_def)
  then obtain pc where p: "processConversation ?c = Some (Inr pc)"
    and t: "pc_title pc = ''Untitled Conversation''" and l: "length (pc_messages pc) = 1" by blast
  from processConversation_title [OF p] p t l show ?thesis by auto
qed

text \<open>
  X4: \<^verbatim>\<open>smartDelay\<close> sleeps exactly once, and never longer than \<^verbatim>\<open>maxDelay\<close>.
\<close>

theorem smartDelay_capped:
  "\<exists>d. events (smartDelay pf conversationIndex config s) = events s @ [Slept d]
     \<and> d \<le> maxDelay config"
  by (simp add: smartDelay_def nextRandom_def sleep_def Let_def)

end
